theory Spec2Isabelle
  imports Main
begin

section \<open>Data model\<close>

text \<open>
  The gate of \<^verbatim>\<open>index.js\<close> is a chain of Express middlewares. A middleware receives
  the request object, the response object and the continuation \<^verbatim>\<open>next\<close>. The model
  passes the request as a value, the response object as a record that is returned updated,
  and everything shared between requests (the module-level cache, the state behind the
  Redis client) as a state record that is returned updated. The listeners registered on a
  response close over the request object: where the downstream pipeline changes it, they
  are given the changed request (\<open>downstream_mutates\<close> below).
\<close>

type_synonym cache_key = string

type_synonym header_map = "string \<rightharpoonup> string"

record request =
  req_method :: string
  req_path :: string
  req_headers :: header_map
  req_body :: string

text \<open>\<^verbatim>\<open>req.get(name)\<close>: the value of a request header, \<^verbatim>\<open>undefined\<close> when it is absent.\<close>

definition req_get :: "request \<Rightarrow> string \<Rightarrow> string option" where
  "req_get req name = req_headers req name"

text \<open>
  JavaScript truthiness of what \<^verbatim>\<open>req.get\<close> returns: \<^verbatim>\<open>undefined\<close> and the empty
  string are falsy, every other string is truthy. Both middlewares test the idempotency
  key with \<^verbatim>\<open>if (!idempotencyKey)\<close> and \<^verbatim>\<open>if (idempotencyKey)\<close>.
\<close>

definition truthy :: "string option \<Rightarrow> bool" where
  "truthy v = (case v of None \<Rightarrow> False | Some s \<Rightarrow> s \<noteq> [])"

text \<open>
  The object literal \<^verbatim>\<open>responseToStore\<close> of the store middlewares, which is also what
  the cache hands back as \<^verbatim>\<open>storedResponse\<close>. Its \<open>body\<close> and \<open>headers\<close> are whatever
  the properties \<^verbatim>\<open>res.body\<close> and \<^verbatim>\<open>res.headers\<close> hold when the response ends: \<open>None\<close> is
  \<^verbatim>\<open>undefined\<close>, a header object is the list of its properties in their order.
\<close>

record cached_response =
  statusCode :: nat
  body :: "string option"
  headers :: "(string \<times> string) list option"

datatype error = TypeError string | RedisError string

text \<open>
  The Redis client is an argument of \<^verbatim>\<open>checkInRedisMw\<close> and \<^verbatim>\<open>storeInRedisMw\<close>, so it is
  an argument of the model: two operations over the state \<open>'c\<close> of the service behind it.
  A promise that resolves is \<open>Inr\<close>, a promise that rejects is \<open>Inl\<close>.
\<close>

record 'c redis_client =
  getAsync :: "cache_key \<Rightarrow> 'c \<Rightarrow> (error + cached_response option) \<times> 'c"
  setAsync :: "cache_key \<Rightarrow> cached_response \<Rightarrow> 'c \<Rightarrow> (error + unit) \<times> 'c"

text \<open>
  The closures registered with \<^verbatim>\<open>res.once('end', ...)\<close>, as data: each one keeps the
  request it closes over (and the Redis one its client).
\<close>

datatype 'c listener =
    StoreInLRUCache request
  | StoreInRedis "'c redis_client" request

text \<open>
  What \<^verbatim>\<open>res.set\<close> and \<^verbatim>\<open>res.send\<close> of Express take from the application and from the
  libraries Express is built on, as the functions they are: \<open>contentType\<close> is the value
  \<^verbatim>\<open>res.set\<close> stores for a \<^verbatim>\<open>Content-Type\<close> (the charset of the media type appended),
  \<open>setCharsetUtf8\<close> is \<^verbatim>\<open>setCharset(type, 'utf-8')\<close>, \<open>etagFn\<close> the application setting
  \<^verbatim>\<open>'etag fn'\<close> (\<open>None\<close> when ETags are disabled), and \<open>fresh\<close> the test behind
  \<^verbatim>\<open>req.fresh\<close>, on the request headers and the \<^verbatim>\<open>ETag\<close> and \<^verbatim>\<open>Last-Modified\<close> of the
  response.
\<close>

record express_app =
  contentType :: "string \<Rightarrow> string"
  setCharsetUtf8 :: "string \<Rightarrow> string"
  etagFn :: "(string \<Rightarrow> string option) option"
  fresh :: "header_map \<Rightarrow> string option \<Rightarrow> string option \<Rightarrow> bool"

text \<open>
  The response object. \<open>res_statusCode\<close> is \<^verbatim>\<open>res.statusCode\<close>. \<open>res_body\<close> and
  \<open>res_headers\<close> are the properties \<^verbatim>\<open>res.body\<close> and \<^verbatim>\<open>res.headers\<close> that the store
  listener reads: Express defines neither, so they are \<open>None\<close> (\<^verbatim>\<open>undefined\<close>) unless the
  application has assigned them. What is sent is kept apart from them: \<open>headerFields\<close> are
  the outgoing header fields, which \<^verbatim>\<open>res.set\<close> writes, under their lower-cased names;
  \<open>sentBody\<close> is the body written when the response ended (\<open>None\<close> while it has not
  ended). \<open>endListeners\<close> are the one-shot listeners of the \<^verbatim>\<open>'end'\<close> event in
  registration order, \<open>res_app\<close> is \<^verbatim>\<open>res.app\<close>.
\<close>

record 'c response =
  res_statusCode :: nat
  res_body :: "string option"
  res_headers :: "(string \<times> string) list option"
  headerFields :: header_map
  sentBody :: "string option"
  endListeners :: "'c listener list"
  res_app :: express_app

section \<open>The bounded local store\<close>

text \<open>
  Modelled from the spec: \<^verbatim>\<open>lib/cache-provider\<close> is required by both source files and is
  not among them. The spec (3, 4.2, 4.3) describes it as an in-memory store of fixed
  capacity with strict least-recently-used eviction: on insertion past capacity the entry
  least recently looked up (or inserted, if never looked up) is removed first; no expiry
  by default. The entries are kept most recently used first.
\<close>

record ('k, 'v) lru =
  capacity :: nat
  entries :: "('k \<times> 'v) list"

text \<open>Modelled from the spec: the empty store of a configured capacity (spec 6).\<close>

definition cache_new :: "nat \<Rightarrow> ('k, 'v) lru" where
  "cache_new n = \<lparr>capacity = n, entries = []\<rparr>"

text \<open>The keys of a store from the most to the least recently used, and their number.\<close>

definition cache_keys :: "('k, 'v) lru \<Rightarrow> 'k list" where
  "cache_keys c = map fst (entries c)"

definition cache_size :: "('k, 'v) lru \<Rightarrow> nat" where
  "cache_size c = length (entries c)"

text \<open>The mapping a store holds, without touching recency.\<close>

definition cache_peek :: "('k, 'v) lru \<Rightarrow> 'k \<Rightarrow> 'v option" where
  "cache_peek c k = map_of (entries c) k"

text \<open>Modelled from the spec: \<open>lookup(key)\<close>; a hit makes the entry the most recent one.\<close>

definition cache_get :: "'k \<Rightarrow> ('k, 'v) lru \<Rightarrow> 'v option \<times> ('k, 'v) lru" where
  "cache_get k c =
     (case map_of (entries c) k of
        None \<Rightarrow> (None, c)
      | Some v \<Rightarrow> (Some v, c\<lparr>entries := (k, v) # filter (\<lambda>e. fst e \<noteq> k) (entries c)\<rparr>))"

text \<open>
  Modelled from the spec: \<open>store(key, response)\<close>; the new entry is the most recent one,
  an existing entry of the key is overwritten, and what exceeds the capacity is dropped
  from the least recently used end.
\<close>

definition cache_set :: "'k \<Rightarrow> 'v \<Rightarrow> ('k, 'v) lru \<Rightarrow> ('k, 'v) lru" where
  "cache_set k v c =
     c\<lparr>entries := take (capacity c) ((k, v) # filter (\<lambda>e. fst e \<noteq> k) (entries c))\<rparr>"

text \<open>Modelled from the spec: \<open>remove(key)\<close>.\<close>

definition cache_remove :: "'k \<Rightarrow> ('k, 'v) lru \<Rightarrow> ('k, 'v) lru" where
  "cache_remove k c = c\<lparr>entries := filter (\<lambda>e. fst e \<noteq> k) (entries c)\<rparr>"

text \<open>Sequences of store operations, and the moment a key was last used in one.\<close>

datatype ('k, 'v) cache_op = Lookup 'k | Store 'k 'v | Remove 'k

fun apply_op :: "('k, 'v) lru \<Rightarrow> ('k, 'v) cache_op \<Rightarrow> ('k, 'v) lru" where
  "apply_op c (Lookup k) = snd (cache_get k c)"
| "apply_op c (Store k v) = cache_set k v c"
| "apply_op c (Remove k) = cache_remove k c"

definition run_ops :: "('k, 'v) lru \<Rightarrow> ('k, 'v) cache_op list \<Rightarrow> ('k, 'v) lru" where
  "run_ops c ops = foldl apply_op c ops"

fun uses :: "('k, 'v) cache_op \<Rightarrow> 'k \<Rightarrow> bool" where
  "uses (Lookup k) k' = (k = k')"
| "uses (Store k v) k' = (k = k')"
| "uses (Remove k) k' = False"

text \<open>
  The position (from 1) of the last lookup or store of a key in a sequence of operations,
  0 when there is none: the larger, the more recently used.
\<close>

definition last_use :: "('k, 'v) cache_op list \<Rightarrow> 'k \<Rightarrow> nat" where
  "last_use ops k = length (dropWhile (\<lambda>op. \<not> uses op k) (rev ops))"

section \<open>Key generation\<close>

text \<open>
  Modelled from the spec: \<^verbatim>\<open>lib/generate-cache-key\<close> is required by both source files and
  is not among them. The spec (4.1) has \<open>generate(request, token)\<close> pure, deterministic
  and total, built from the method, the path normalised for trailing slashes, and the
  token, joined with a separator that occurs in none of them (here the line feed).
\<close>

text \<open>
  Modelled from the spec: "a normalized path (no trailing slash differences)" (spec 4.1);
  trailing slashes are dropped.
\<close>

definition normalizePath :: "string \<Rightarrow> string" where
  "normalizePath p = rev (dropWhile (\<lambda>c. c = CHR ''/'') (rev p))"

text \<open>
  Modelled from the spec: \<open>generate(request, token)\<close> (spec 4.1), the composite string
  of method, normalised path and token.
\<close>

definition generateCacheKey :: "request \<Rightarrow> string \<Rightarrow> cache_key" where
  "generateCacheKey req token =
     req_method req @ [CHR 0x0A] @ normalizePath (req_path req) @ [CHR 0x0A] @ token"

section \<open>Shared state and the response object's methods\<close>

text \<open>
  What the middlewares and listeners call outside themselves is recorded in \<open>calls\<close>, in
  call order: the key generator, the module-level cache (\<^verbatim>\<open>cache.get\<close>, \<^verbatim>\<open>cache.set\<close>)
  and the Redis client (\<^verbatim>\<open>client.getAsync\<close>, \<^verbatim>\<open>client.setAsync\<close>). The \<^verbatim>\<open>debug\<close> lines
  only log and are left out.
\<close>

datatype event =
    KeyGenerated cache_key
  | CacheGet cache_key
  | CacheSet cache_key cached_response
  | RedisGet cache_key
  | RedisSet cache_key cached_response

text \<open>
  \<open>cache\<close> is the module-level object of \<^verbatim>\<open>lib/cache-provider\<close>, \<open>backend\<close> the state of
  the service behind the Redis client, \<open>unhandled\<close> the rejections of the promises of
  the asynchronous \<^verbatim>\<open>'end'\<close> listeners, which nothing awaits.
\<close>

record 'c state =
  cache :: "(cache_key, cached_response) lru"
  backend :: 'c
  calls :: "event list"
  unhandled :: "error list"

datatype outcome = CallsNext | Responds | Rejects error

type_synonym 'c middleware =
  "request \<Rightarrow> 'c response \<Rightarrow> 'c state \<Rightarrow> outcome \<times> 'c response \<times> 'c state"

text \<open>Header names are case-insensitive: the header fields are kept under lower-cased names.\<close>

definition lower_char :: "char \<Rightarrow> char" where
  "lower_char c =
     (case map_of (zip ''ABCDEFGHIJKLMNOPQRSTUVWXYZ'' ''abcdefghijklmnopqrstuvwxyz'') c of
        None \<Rightarrow> c
      | Some l \<Rightarrow> l)"

definition lower :: "string \<Rightarrow> string" where
  "lower s = map lower_char s"

text \<open>The decimal digits of a number, as \<^verbatim>\<open>String(len)\<close> gives them.\<close>

function decimal :: "nat \<Rightarrow> string" where
  "decimal n =
     (if n < 10 then [''0123456789'' ! n]
      else decimal (n div 10) @ [''0123456789'' ! (n mod 10)])"
  by pat_completeness auto
termination
  by (relation "measure id") auto

text \<open>\<^verbatim>\<open>res.status(code)\<close>, \<^verbatim>\<open>res.get(name)\<close> and \<^verbatim>\<open>res.removeHeader(name)\<close>.\<close>

definition res_status :: "nat \<Rightarrow> 'c response \<Rightarrow> 'c response" where
  "res_status code res = res\<lparr>res_statusCode := code\<rparr>"

definition res_get :: "string \<Rightarrow> 'c response \<Rightarrow> string option" where
  "res_get name res = headerFields res (lower name)"

definition res_remove :: "string \<Rightarrow> 'c response \<Rightarrow> 'c response" where
  "res_remove name res = res\<lparr>headerFields := (headerFields res)(lower name := None)\<rparr>"

text \<open>
  \<^verbatim>\<open>res.set(name, value)\<close> of Express: the value of a \<^verbatim>\<open>Content-Type\<close> is stored with
  its charset, every other value as it is.
\<close>

definition res_set :: "string \<Rightarrow> string \<Rightarrow> 'c response \<Rightarrow> 'c response" where
  "res_set name v res =
     (let v' = (if lower name = ''content-type'' then contentType (res_app res) v else v)
      in res\<lparr>headerFields := (headerFields res)(lower name \<mapsto> v')\<rparr>)"

text \<open>
  \<^verbatim>\<open>res.set(object)\<close> of Express: \<^verbatim>\<open>res.set(name, value)\<close> for every property of the
  object, in their order; nothing when the argument is \<^verbatim>\<open>undefined\<close>.
\<close>

definition res_set_all :: "(string \<times> string) list option \<Rightarrow> 'c response \<Rightarrow> 'c response" where
  "res_set_all obj res =
     (case obj of
        None \<Rightarrow> res
      | Some hs \<Rightarrow> foldl (\<lambda>r (name, v). res_set name v r) res hs)"

text \<open>
  \<^verbatim>\<open>req.fresh\<close> of Express: only a GET or HEAD whose response has a 2xx or 304 status can
  be fresh.
\<close>

definition req_fresh :: "request \<Rightarrow> 'c response \<Rightarrow> bool" where
  "req_fresh req res =
     ((req_method req = ''GET'' \<or> req_method req = ''HEAD'') \<and>
      ((200 \<le> res_statusCode res \<and> res_statusCode res < 300) \<or> res_statusCode res = 304) \<and>
      fresh (res_app res) (req_headers req) (res_get ''ETag'' res) (res_get ''Last-Modified'' res))"

text \<open>
  The body of the listener of \<^verbatim>\<open>storeInLRUCacheMw\<close> (index.js 44-58, the same statements
  as \<^verbatim>\<open>storeMw\<close>, part_000 42-56) and of the listener of \<^verbatim>\<open>storeInRedisMw\<close>
  (index.js 97-111). A rejected \<^verbatim>\<open>setAsync\<close> rejects the listener's own promise.
\<close>

fun run_listener :: "'c listener \<Rightarrow> 'c response \<Rightarrow> 'c state \<Rightarrow> 'c state" where
  "run_listener (StoreInLRUCache req) res st =
     (case req_get req ''Idempotency-Key'' of
        None \<Rightarrow> st
      | Some idempotencyKey \<Rightarrow>
          if idempotencyKey \<noteq> [] then
            let responseToStore =
                  \<lparr>statusCode = res_statusCode res, body = res_body res,
                   headers = res_headers res\<rparr>;
                cacheKey = generateCacheKey req idempotencyKey
            in st\<lparr>cache := cache_set cacheKey responseToStore (cache st),
                  calls := calls st @ [KeyGenerated cacheKey, CacheSet cacheKey responseToStore]\<rparr>
          else st)"
| "run_listener (StoreInRedis client req) res st =
     (case req_get req ''Idempotency-Key'' of
        None \<Rightarrow> st
      | Some idempotencyKey \<Rightarrow>
          if idempotencyKey \<noteq> [] then
            let responseToStore =
                  \<lparr>statusCode = res_statusCode res, body = res_body res,
                   headers = res_headers res\<rparr>;
                cacheKey = generateCacheKey req idempotencyKey;
                (r, b) = setAsync client cacheKey responseToStore (backend st);
                st' = st\<lparr>backend := b,
                         calls := calls st @ [KeyGenerated cacheKey, RedisSet cacheKey responseToStore]\<rparr>
            in (case r of
                  Inl e \<Rightarrow> st'\<lparr>unhandled := unhandled st' @ [e]\<rparr>
                | Inr u \<Rightarrow> st')
          else st)"

text \<open>
  The \<^verbatim>\<open>'end'\<close> event, which \<^verbatim>\<open>express-end\<close> (first in the chain) emits when the response
  ends: the listeners run in registration order on the response as it is then, and, being
  registered with \<^verbatim>\<open>once\<close>, are gone afterwards.
\<close>

definition emit_end :: "'c response \<Rightarrow> 'c state \<Rightarrow> 'c response \<times> 'c state" where
  "emit_end res st =
     (res\<lparr>endListeners := []\<rparr>, foldl (\<lambda>s l. run_listener l res s) st (endListeners res))"

text \<open>
  \<^verbatim>\<open>res.send(body)\<close> of Express, for a body that is a string or \<^verbatim>\<open>undefined\<close>, in the
  steps of its source. For a string: a missing \<^verbatim>\<open>Content-Type\<close> becomes that of
  \<^verbatim>\<open>res.type('html')\<close>, and the \<^verbatim>\<open>Content-Type\<close> gets the charset \<^verbatim>\<open>utf-8\<close>.
\<close>

definition send_content_type :: "'c response \<Rightarrow> 'c response" where
  "send_content_type res =
     (let r = (if \<not> truthy (res_get ''Content-Type'' res)
               then res_set ''Content-Type'' ''text/html'' res else res)
      in case res_get ''Content-Type'' r of
           None \<Rightarrow> r
         | Some type \<Rightarrow> res_set ''Content-Type'' (setCharsetUtf8 (res_app r) type) r)"

text \<open>
  \<^verbatim>\<open>Content-Length\<close> is set to the length of the body, and an \<^verbatim>\<open>ETag\<close> is generated
  when the response has none and the application has an \<^verbatim>\<open>'etag fn'\<close>.
\<close>

definition send_length_etag :: "string \<Rightarrow> 'c response \<Rightarrow> 'c response" where
  "send_length_etag chunk res =
     (let generateETag = (\<not> truthy (res_get ''ETag'' res) \<and> etagFn (res_app res) \<noteq> None);
          r = res_set ''Content-Length'' (decimal (length chunk)) res
      in if generateETag then
           (case etagFn (res_app res) of
              None \<Rightarrow> r
            | Some etagOf \<Rightarrow>
                (case etagOf chunk of
                   None \<Rightarrow> r
                 | Some etag \<Rightarrow> if etag \<noteq> [] then res_set ''ETag'' etag r else r))
         else r)"

text \<open>
  A fresh request is answered 304; a 204 or 304 response loses \<^verbatim>\<open>Content-Type\<close>,
  \<^verbatim>\<open>Content-Length\<close>, \<^verbatim>\<open>Transfer-Encoding\<close> and its body; a 205 response (Express 4.18
  and later) gets \<^verbatim>\<open>Content-Length: 0\<close> and loses its body; a HEAD request gets no body.
  \<open>send_fields\<close> is the response as \<^verbatim>\<open>res.send\<close> ends it; \<^verbatim>\<open>express-end\<close> then emits
  \<^verbatim>\<open>'end'\<close>.
\<close>

definition send_fields :: "request \<Rightarrow> string option \<Rightarrow> 'c response \<Rightarrow> 'c response" where
  "send_fields req chunk res =
     (let r1 = (case chunk of
                  None \<Rightarrow> res
                | Some b \<Rightarrow> send_length_etag b (send_content_type res));
          chunk1 = (case chunk of None \<Rightarrow> [] | Some b \<Rightarrow> b);
          r2 = (if req_fresh req r1 then r1\<lparr>res_statusCode := 304\<rparr> else r1);
          (r3, chunk3) =
            (if res_statusCode r2 = 204 \<or> res_statusCode r2 = 304
             then (res_remove ''Transfer-Encoding''
                     (res_remove ''Content-Length'' (res_remove ''Content-Type'' r2)), [])
             else (r2, chunk1));
          (r4, chunk4) =
            (if res_statusCode r3 = 205
             then (res_remove ''Transfer-Encoding'' (res_set ''Content-Length'' ''0'' r3), [])
             else (r3, chunk3));
          written = (if req_method req = ''HEAD'' then [] else chunk4)
      in r4\<lparr>sentBody := Some written\<rparr>)"

definition res_send ::
  "request \<Rightarrow> string option \<Rightarrow> 'c response \<Rightarrow> 'c state \<Rightarrow> 'c response \<times> 'c state" where
  "res_send req chunk res st = emit_end (send_fields req chunk res) st"

text \<open>
  The downstream pipeline is outside the gate. The listeners read three properties of the
  response object and nothing else of it (index.js 49-51 and 102-104): \<open>downstream_completes x\<close>
  is the end of a response on which \<^verbatim>\<open>res.statusCode\<close>, \<^verbatim>\<open>res.body\<close> and \<^verbatim>\<open>res.headers\<close>
  then hold \<open>x\<close>, whatever \<open>x\<close> is. Express assigns neither \<^verbatim>\<open>res.body\<close> nor
  \<^verbatim>\<open>res.headers\<close>: after an ordinary handler \<open>body x\<close> and \<open>headers x\<close> are \<open>None\<close>,
  and they are something else only when the pipeline itself assigned these properties.
  What the pipeline sent is not \<open>x\<close> but \<open>headerFields\<close> and \<open>sentBody\<close>, and nothing
  relates the two.
\<close>

definition downstream_completes ::
  "cached_response \<Rightarrow> 'c response \<Rightarrow> 'c state \<Rightarrow> 'c response \<times> 'c state" where
  "downstream_completes x res st =
     emit_end (res\<lparr>res_statusCode := statusCode x, res_body := body x,
                   res_headers := headers x\<rparr>) st"

text \<open>
  An Express handler that answers with \<^verbatim>\<open>res.status(code)\<close>, \<^verbatim>\<open>res.set(object)\<close> and
  \<^verbatim>\<open>res.send(body)\<close>: it assigns neither \<^verbatim>\<open>res.body\<close> nor \<^verbatim>\<open>res.headers\<close>.
\<close>

definition handler_responds ::
  "request \<Rightarrow> nat \<Rightarrow> (string \<times> string) list \<Rightarrow> string \<Rightarrow> 'c response \<Rightarrow> 'c state \<Rightarrow>
   'c response \<times> 'c state" where
  "handler_responds req code hs b res st =
     res_send req (Some b) (res_set_all (Some hs) (res_status code res)) st"

text \<open>
  The listeners close over the request object itself, not over a copy: when the downstream
  pipeline changes the request (a mounted router rewrites its path while it handles it),
  the listeners of its response see the request as changed.
\<close>

fun listener_with_request :: "request \<Rightarrow> 'c listener \<Rightarrow> 'c listener" where
  "listener_with_request req' (StoreInLRUCache req) = StoreInLRUCache req'"
| "listener_with_request req' (StoreInRedis client req) = StoreInRedis client req'"

definition downstream_mutates :: "request \<Rightarrow> 'c response \<Rightarrow> 'c response" where
  "downstream_mutates req' res =
     res\<lparr>endListeners := map (listener_with_request req') (endListeners res)\<rparr>"

section \<open>The middlewares of index.js\<close>

text \<open>The four statements that replay a stored response (index.js 30-33 and 86-89).\<close>

definition replay ::
  "request \<Rightarrow> cached_response \<Rightarrow> 'c response \<Rightarrow> 'c state \<Rightarrow> 'c response \<times> 'c state" where
  "replay req storedResponse res st =
     res_send req (body storedResponse)
       (res_set ''X-Cache'' ''HIT''
         (res_set_all (headers storedResponse)
           (res_status (statusCode storedResponse) res))) st"

definition checkInLRUCacheMw :: "'c middleware" where
  "checkInLRUCacheMw req res st =
     (case req_get req ''Idempotency-Key'' of
        None \<Rightarrow> (CallsNext, res, st)
      | Some idempotencyKey \<Rightarrow>
          if idempotencyKey = [] then (CallsNext, res, st)
          else
            let cacheKey = generateCacheKey req idempotencyKey;
                (storedResponse, c) = cache_get cacheKey (cache st);
                st' = st\<lparr>cache := c,
                         calls := calls st @ [KeyGenerated cacheKey, CacheGet cacheKey]\<rparr>
            in (case storedResponse of
                  None \<Rightarrow> (CallsNext, res, st')
                | Some r \<Rightarrow> (let (res', st'') = replay req r res st' in (Responds, res', st''))))"

definition storeInLRUCacheMw :: "'c middleware" where
  "storeInLRUCacheMw req res st =
     (CallsNext, res\<lparr>endListeners := endListeners res @ [StoreInLRUCache req]\<rparr>, st)"

text \<open>
  \<^verbatim>\<open>checkInRedisMw\<close> is an \<^verbatim>\<open>async\<close> function with no \<^verbatim>\<open>try\<close>: when the awaited
  \<^verbatim>\<open>getAsync\<close> rejects, the function's promise rejects and none of the statements after
  the \<^verbatim>\<open>await\<close> runs.
\<close>

definition checkInRedisMw :: "'c redis_client \<Rightarrow> 'c middleware" where
  "checkInRedisMw client req res st =
     (case req_get req ''Idempotency-Key'' of
        None \<Rightarrow> (CallsNext, res, st)
      | Some idempotencyKey \<Rightarrow>
          if idempotencyKey = [] then (CallsNext, res, st)
          else
            let cacheKey = generateCacheKey req idempotencyKey;
                (storedResponse, b) = getAsync client cacheKey (backend st);
                st' = st\<lparr>backend := b,
                         calls := calls st @ [KeyGenerated cacheKey, RedisGet cacheKey]\<rparr>
            in (case storedResponse of
                  Inl e \<Rightarrow> (Rejects e, res, st')
                | Inr None \<Rightarrow> (CallsNext, res, st')
                | Inr (Some r) \<Rightarrow>
                    (let (res', st'') = replay req r res st' in (Responds, res', st''))))"

definition storeInRedisMw :: "'c redis_client \<Rightarrow> 'c middleware" where
  "storeInRedisMw client req res st =
     (CallsNext, res\<lparr>endListeners := endListeners res @ [StoreInRedis client req]\<rparr>, st)"

text \<open>\<^verbatim>\<open>express-end\<close> only arranges for the \<^verbatim>\<open>'end'\<close> event and calls \<^verbatim>\<open>next\<close>.\<close>

definition expressEnd :: "'c middleware" where
  "expressEnd req res st = (CallsNext, res, st)"

text \<open>
  A \<^verbatim>\<open>connect()\<close> chain runs its middlewares in the order of \<^verbatim>\<open>chain.use\<close>, each one
  only when the one before called \<^verbatim>\<open>next\<close>; when the last one calls \<^verbatim>\<open>next\<close> the
  chain calls the \<^verbatim>\<open>next\<close> it was given, which is the downstream pipeline.
\<close>

fun run_chain :: "'c middleware list \<Rightarrow> 'c middleware" where
  "run_chain [] req res st = (CallsNext, res, st)"
| "run_chain (m # ms) req res st =
     (case m req res st of
        (CallsNext, res', st') \<Rightarrow> run_chain ms req res' st'
      | (Responds, res', st') \<Rightarrow> (Responds, res', st')
      | (Rejects e, res', st') \<Rightarrow> (Rejects e, res', st'))"

text \<open>
  The options object: \<^verbatim>\<open>options.cacheEngine\<close> (\<open>None\<close> when the property is missing)
  and \<^verbatim>\<open>options.redis\<close> with its \<^verbatim>\<open>client\<close>.
\<close>

record 'c redis_options =
  client :: "'c redis_client"

record 'c options =
  cacheEngine :: "string option"
  redis :: "'c redis_options option"

definition js_string :: "string option \<Rightarrow> string" where
  "js_string v = (case v of None \<Rightarrow> ''undefined'' | Some s \<Rightarrow> s)"

text \<open>
  \<^verbatim>\<open>idempotency\<close> of index.js (121-138). Reading \<^verbatim>\<open>options.redis.client\<close> when
  \<^verbatim>\<open>options.redis\<close> is missing is a TypeError of the language.
\<close>

definition idempotency :: "'c options \<Rightarrow> error + 'c middleware list" where
  "idempotency options =
     (if cacheEngine options \<noteq> Some ''lru'' \<and> cacheEngine options \<noteq> Some ''redis'' then
        Inl (TypeError (''Unknown cacheEngine '' @ js_string (cacheEngine options) @
                        ''. Must be either '' @ [CHR 0x22] @ ''lru'' @ [CHR 0x22] @ '' or '' @
                        [CHR 0x22] @ ''redis'' @ [CHR 0x22] @ ''.''))
      else if cacheEngine options = Some ''lru'' then
        Inr [expressEnd, checkInLRUCacheMw, storeInLRUCacheMw]
      else if cacheEngine options = Some ''redis'' then
        (case redis options of
           None \<Rightarrow> Inl (TypeError ''Cannot read properties of undefined (reading 'client')'')
         | Some r \<Rightarrow> Inr [expressEnd, checkInRedisMw (client r), storeInRedisMw (client r)])
      else Inr [expressEnd])"

section \<open>The middlewares of the single-backend file\<close>

text \<open>
  The second source file (part_000) has \<^verbatim>\<open>checkMw\<close> and \<^verbatim>\<open>storeMw\<close>, statement for
  statement the bodies of \<^verbatim>\<open>checkInLRUCacheMw\<close> and \<^verbatim>\<open>storeInLRUCacheMw\<close>, and an
  \<^verbatim>\<open>idempotency\<close> that reads none of its options.
\<close>

definition checkMw :: "'c middleware" where
  "checkMw = checkInLRUCacheMw"

definition storeMw :: "'c middleware" where
  "storeMw = storeInLRUCacheMw"

definition idempotency_part_000 :: "'c options \<Rightarrow> error + 'c middleware list" where
  "idempotency_part_000 options = Inr [expressEnd, checkMw, storeMw]"

section \<open>Gates, invariants and sample inputs\<close>

text \<open>
  The gate with the local store: what \<^verbatim>\<open>idempotency\<close> of index.js builds for the
  \<^verbatim>\<open>'lru'\<close> engine, or what \<^verbatim>\<open>idempotency\<close> of the single-backend file builds.
\<close>

definition lru_gate :: "'c options \<Rightarrow> 'c middleware list \<Rightarrow> bool" where
  "lru_gate options chain \<longleftrightarrow>
     (cacheEngine options = Some ''lru'' \<and> idempotency options = Inr chain) \<or>
     idempotency_part_000 options = Inr chain"

text \<open>
  The entries of a store are in the order of their last use in the operations that led
  to it, the most recent first, and are no more than the capacity.
\<close>

definition lru_ordered :: "('k, 'v) cache_op list \<Rightarrow> ('k, 'v) lru \<Rightarrow> bool" where
  "lru_ordered ops c \<longleftrightarrow>
     length (entries c) \<le> capacity c \<and>
     sorted_wrt (\<lambda>a b. last_use ops (fst b) < last_use ops (fst a)) (entries c)"

text \<open>
  The header fields that Express itself writes or removes in \<^verbatim>\<open>res.send\<close>, and the header
  fields that the properties of a header object stand for: the last value of each
  lower-cased name.
\<close>

definition express_managed :: "string set" where
  "express_managed = {''content-type'', ''content-length'', ''etag'', ''transfer-encoding''}"


text \<open>Sample inputs on which the statements below are evaluated.\<close>

definition example_request :: request where
  "example_request =
     \<lparr>req_method = ''POST'', req_path = ''/orders'',
      req_headers = [''Idempotency-Key'' \<mapsto> ''abc''], req_body = ''{}''\<rparr>"

definition example_request_no_token :: request where
  "example_request_no_token =
     \<lparr>req_method = ''POST'', req_path = ''/orders'', req_headers = Map.empty, req_body = ''{}''\<rparr>"

text \<open>
  A sample application: ETags are disabled, a textual media type without parameters gets
  the charset \<^verbatim>\<open>utf-8\<close>, and a request is fresh when its \<^verbatim>\<open>If-None-Match\<close> is \<^verbatim>\<open>*\<close> or
  the \<^verbatim>\<open>ETag\<close> of the response.
\<close>

definition example_app :: express_app where
  "example_app =
     \<lparr>contentType =
        (\<lambda>v. if CHR '';'' \<notin> set v \<and> take 5 v = ''text/'' then v @ ''; charset=utf-8'' else v),
      setCharsetUtf8 = (\<lambda>v. takeWhile (\<lambda>c. c \<noteq> CHR '';'') v @ ''; charset=utf-8''),
      etagFn = None,
      fresh =
        (\<lambda>h etag modified.
           case h ''if-none-match'' of None \<Rightarrow> False | Some m \<Rightarrow> m = ''*'' \<or> Some m = etag)\<rparr>"

text \<open>A response object as it reaches the gate: status 200, nothing set, no listener.\<close>

definition fresh_response :: "'c response" where
  "fresh_response =
     \<lparr>res_statusCode = 200, res_body = None, res_headers = None,
      headerFields = Map.empty, sentBody = None, endListeners = [], res_app = example_app\<rparr>"

text \<open>
  Two completions whose \<^verbatim>\<open>res.body\<close> and \<^verbatim>\<open>res.headers\<close> have been assigned by the
  application, one with status 201 and one with status 500.
\<close>

definition example_final :: cached_response where
  "example_final =
     \<lparr>statusCode = 201, body = Some ''created'',
      headers = Some [(''Location'', ''/orders/1'')]\<rparr>"




definition initial_state :: "nat \<Rightarrow> 'c \<Rightarrow> 'c state" where
  "initial_state n b = \<lparr>cache = cache_new n, backend = b, calls = [], unhandled = []\<rparr>"

definition lru_options :: "'c options" where
  "lru_options = \<lparr>cacheEngine = Some ''lru'', redis = None\<rparr>"

definition example_ops :: "(string, nat) cache_op list" where
  "example_ops = [Store ''a'' 1, Store ''b'' 2, Lookup ''a'']"

definition redis_options :: "'c redis_client \<Rightarrow> 'c options" where
  "redis_options cl = \<lparr>cacheEngine = Some ''redis'', redis = Some \<lparr>client = cl\<rparr>\<rparr>"

definition unknown_options :: "'c options" where
  "unknown_options = \<lparr>cacheEngine = Some ''memcached'', redis = None\<rparr>"

text \<open>A client whose service is unreachable: both operations reject.\<close>

definition failing_client :: "unit redis_client" where
  "failing_client =
     \<lparr>getAsync = (\<lambda>k b. (Inl (RedisError ''ECONNREFUSED''), b)),
      setAsync = (\<lambda>k v b. (Inl (RedisError ''ECONNREFUSED''), b))\<rparr>"

text \<open>A client whose service answers every lookup with no entry and rejects every write.\<close>

definition readonly_client :: "unit redis_client" where
  "readonly_client =
     \<lparr>getAsync = (\<lambda>k b. (Inr None, b)),
      setAsync = (\<lambda>k v b. (Inl (RedisError ''READONLY''), b))\<rparr>"





text \<open>A state whose cache holds a response for the key of the sample request.\<close>

definition example_cached_state :: "unit state" where
  "example_cached_state =
     \<lparr>cache = cache_set (generateCacheKey example_request ''abc'') example_final (cache_new 1),
      backend = (), calls = [], unhandled = []\<rparr>"

section \<open>Properties of the bounded local store\<close>

lemma map_of_filter_key:
  "map_of (filter (\<lambda>e. fst e \<noteq> k) es) k' = (if k' = k then None else map_of es k')"
  by (induction es) auto

lemma cache_get_peek: "cache_peek (snd (cache_get k c)) = cache_peek c"
  by (rule ext) (auto simp: cache_get_def cache_peek_def map_of_filter_key split: option.splits)

lemma cache_get_capacity: "capacity (snd (cache_get k c)) = capacity c"
  by (simp add: cache_get_def split: option.splits)

lemma cache_get_miss: "cache_peek c k = None \<Longrightarrow> cache_get k c = (None, c)"
  by (simp add: cache_get_def cache_peek_def)

lemma cache_get_hit:
  "cache_peek c k = Some v \<Longrightarrow>
   \<exists>c'. cache_get k c = (Some v, c') \<and> cache_peek c' = cache_peek c \<and> capacity c' = capacity c"
  using cache_get_peek [of k c] by (auto simp: cache_get_def cache_peek_def split: option.splits)

lemma cache_set_capacity: "capacity (cache_set k v c) = capacity c"
  by (simp add: cache_set_def)

lemma cache_set_peek: "0 < capacity c \<Longrightarrow> cache_peek (cache_set k v c) k = Some v"
  by (cases "capacity c") (simp_all add: cache_set_def cache_peek_def)

lemma last_use_snoc:
  "last_use (ops @ [op]) k = (if uses op k then Suc (length ops) else last_use ops k)"
  by (simp add: last_use_def)

lemma last_use_le: "last_use ops k \<le> length ops"
  unfolding last_use_def
  by (metis length_dropWhile_le length_rev)

lemma sorted_front:
  assumes "sorted_wrt (\<lambda>a b. last_use ops (fst b) < last_use ops (fst a)) es"
    and "uses op k"
  shows "sorted_wrt (\<lambda>a b. last_use (ops @ [op]) (fst b) < last_use (ops @ [op]) (fst a))
           ((k, v) # filter (\<lambda>e. fst e \<noteq> k) es)"
proof -
  have 1: "\<forall>e \<in> set (filter (\<lambda>e. fst e \<noteq> k) es). last_use (ops @ [op]) (fst e) < last_use (ops @ [op]) k"
  proof
    fix e assume "e \<in> set (filter (\<lambda>e. fst e \<noteq> k) es)"
    then have ne: "fst e \<noteq> k" by simp
    have "\<not> uses op (fst e)" using ne assms(2) by (cases op) auto
    then have "last_use (ops @ [op]) (fst e) = last_use ops (fst e)" by (simp add: last_use_snoc)
    moreover have "last_use (ops @ [op]) k = Suc (length ops)" using assms(2) by (simp add: last_use_snoc)
    ultimately show "last_use (ops @ [op]) (fst e) < last_use (ops @ [op]) k"
      using last_use_le [of ops "fst e"] by simp
  qed
  have 2: "sorted_wrt (\<lambda>a b. last_use ops (fst b) < last_use ops (fst a)) (filter (\<lambda>e. fst e \<noteq> k) es)"
    using assms(1) by (rule sorted_wrt_filter)
  have 3: "sorted_wrt (\<lambda>a b. last_use (ops @ [op]) (fst b) < last_use (ops @ [op]) (fst a)) (filter (\<lambda>e. fst e \<noteq> k) es)"
  proof (rule sorted_wrt_mono_rel [OF _ 2])
    fix a b assume "a \<in> set (filter (\<lambda>e. fst e \<noteq> k) es)" "b \<in> set (filter (\<lambda>e. fst e \<noteq> k) es)"
      and lt: "last_use ops (fst b) < last_use ops (fst a)"
    then have "fst a \<noteq> k" "fst b \<noteq> k" by simp_all
    then have "\<not> uses op (fst a)" "\<not> uses op (fst b)" using assms(2) by (cases op; auto)+
    then show "last_use (ops @ [op]) (fst b) < last_use (ops @ [op]) (fst a)"
      using lt by (simp add: last_use_snoc)
  qed
  show ?thesis using 1 3 by simp
qed

lemma sorted_unused:
  assumes "sorted_wrt (\<lambda>a b. last_use ops (fst b) < last_use ops (fst a)) es"
    and "\<forall>e \<in> set es. \<not> uses op (fst e)"
  shows "sorted_wrt (\<lambda>a b. last_use (ops @ [op]) (fst b) < last_use (ops @ [op]) (fst a)) es"
proof (rule sorted_wrt_mono_rel [OF _ assms(1)])
  fix a b assume "a \<in> set es" "b \<in> set es" and lt: "last_use ops (fst b) < last_use ops (fst a)"
  then show "last_use (ops @ [op]) (fst b) < last_use (ops @ [op]) (fst a)"
    using assms(2) by (simp add: last_use_snoc)
qed

lemma map_of_None_keys: "map_of es k = None \<Longrightarrow> \<forall>e \<in> set es. fst e \<noteq> k"
  by (metis map_of_eq_None_iff image_eqI)

lemma lru_ordered_step:
  assumes "lru_ordered ops c"
  shows "lru_ordered (ops @ [op]) (apply_op c op)"
proof (cases op)
  case (Lookup k)
  show ?thesis
  proof (cases "map_of (entries c) k")
    case None
    then have "\<forall>e \<in> set (entries c). \<not> uses op (fst e)"
      using map_of_None_keys [OF None] Lookup by auto
    then show ?thesis using assms None Lookup
      by (simp add: lru_ordered_def cache_get_def sorted_unused)
  next
    case (Some v)
    have "length (filter (\<lambda>e. fst e \<noteq> k) (entries c)) < length (entries c)"
      using map_of_SomeD [OF Some] by (intro length_filter_less [of "(k, v)"]) simp_all
    then show ?thesis using assms Some Lookup sorted_front [of ops "entries c" op k v]
      by (simp add: lru_ordered_def cache_get_def)
  qed
next
  case (Store k v)
  have "sorted_wrt (\<lambda>a b. last_use (ops @ [op]) (fst b) < last_use (ops @ [op]) (fst a))
          (take (capacity c) ((k, v) # filter (\<lambda>e. fst e \<noteq> k) (entries c)))"
    using assms Store sorted_front [of ops "entries c" op k v]
    by (intro sorted_wrt_take) (simp add: lru_ordered_def)
  then show ?thesis using Store by (simp add: lru_ordered_def cache_set_def)
next
  case (Remove k)
  have "sorted_wrt (\<lambda>a b. last_use (ops @ [op]) (fst b) < last_use (ops @ [op]) (fst a))
          (filter (\<lambda>e. fst e \<noteq> k) (entries c))"
    using assms Remove by (intro sorted_wrt_filter sorted_unused) (simp_all add: lru_ordered_def)
  moreover have "length (filter (\<lambda>e. fst e \<noteq> k) (entries c)) \<le> capacity c"
    using assms by (auto simp: lru_ordered_def intro: le_trans [OF length_filter_le])
  ultimately show ?thesis using Remove by (simp add: lru_ordered_def cache_remove_def)
qed

lemma apply_op_capacity: "capacity (apply_op c op) = capacity c"
  by (cases op) (simp_all add: cache_get_capacity cache_set_capacity cache_remove_def)

lemma run_ops_capacity: "capacity (run_ops c ops) = capacity c"
  unfolding run_ops_def by (induction ops arbitrary: c) (simp_all add: apply_op_capacity)

lemma lru_ordered_run: "lru_ordered ops (run_ops (cache_new n) ops)"
proof (induction ops rule: rev_induct)
  case Nil
  show ?case by (simp add: run_ops_def lru_ordered_def cache_new_def)
next
  case (snoc op ops)
  then show ?case using lru_ordered_step [of ops "run_ops (cache_new n) ops" op]
    by (simp add: run_ops_def)
qed

lemma size_bound: "cache_size (run_ops (cache_new n) ops) \<le> n"
  using lru_ordered_run [of ops n] run_ops_capacity [of "cache_new n" ops]
  by (simp add: lru_ordered_def cache_size_def cache_new_def)

lemma sorted_last_least:
  assumes "sorted_wrt (\<lambda>a b. f b < (f a :: nat)) xs" "xs \<noteq> []" "x \<in> set xs" "x \<noteq> last xs"
  shows "f (last xs) < f x"
  using assms
proof (induction xs)
  case Nil
  then show ?case by simp
next
  case (Cons a xs)
  show ?case
  proof (cases "xs = []")
    case True
    then show ?thesis using Cons.prems by simp
  next
    case False
    then have l: "last (a # xs) = last xs" by simp
    show ?thesis
    proof (cases "x = a")
      case True
      then show ?thesis using Cons.prems(1) False l by simp
    next
      case ne: False
      then show ?thesis using Cons False l by auto
    qed
  qed
qed

lemma sorted_keys_distinct:
  "sorted_wrt (\<lambda>a b. f (fst b) < (f (fst a) :: nat)) es \<Longrightarrow> distinct (map fst es)"
  by (induction es) auto

lemma eviction:
  fixes c :: "('k, 'v) lru"
  assumes c: "c = run_ops (cache_new n) ops"
    and full: "cache_size c = n" and pos: "0 < n" and new: "k \<notin> set (cache_keys c)"
  shows "cache_size (cache_set k v c) = n \<and>
         cache_keys (cache_set k v c) = k # butlast (cache_keys c) \<and>
         set (cache_keys (cache_set k v c)) = insert k (set (cache_keys c) - {last (cache_keys c)}) \<and>
         last (cache_keys c) \<in> set (cache_keys c) \<and>
         (\<forall>k' \<in> set (cache_keys c). k' \<noteq> last (cache_keys c) \<longrightarrow>
             last_use ops (last (cache_keys c)) < last_use ops k')"
proof -
  have cap: "capacity c = n" using c run_ops_capacity [of "cache_new n" ops] by (simp add: cache_new_def)
  have ord: "sorted_wrt (\<lambda>a b. last_use ops (fst b) < last_use ops (fst a)) (entries c)"
    using lru_ordered_run [of ops n] c by (simp add: lru_ordered_def)
  have len: "length (entries c) = n" using full by (simp add: cache_size_def)
  have ne: "entries c \<noteq> []" using len pos by auto
  have nf: "filter (\<lambda>e. fst e \<noteq> k) (entries c) = entries c"
    using new by (auto simp: cache_keys_def filter_id_conv)
  have ent: "entries (cache_set k v c) = (k, v) # butlast (entries c)"
    using cap len pos nf by (cases n) (simp_all add: cache_set_def butlast_conv_take)
  have dis: "distinct (cache_keys c)"
    using sorted_keys_distinct [OF ord] by (simp add: cache_keys_def)
  have keys: "cache_keys (cache_set k v c) = k # butlast (cache_keys c)"
    using ent by (simp add: cache_keys_def map_butlast)
  have kne: "cache_keys c \<noteq> []" using ne by (simp add: cache_keys_def)
  have setb: "set (butlast (cache_keys c)) = set (cache_keys c) - {last (cache_keys c)}"
  proof -
    obtain ys y where ys: "cache_keys c = ys @ [y]"
      using kne by (cases "cache_keys c" rule: rev_cases) auto
    show ?thesis using dis by (auto simp: ys)
  qed
  have least: "\<forall>k' \<in> set (cache_keys c). k' \<noteq> last (cache_keys c) \<longrightarrow>
             last_use ops (last (cache_keys c)) < last_use ops k'"
  proof (intro ballI impI)
    fix k' assume k': "k' \<in> set (cache_keys c)" "k' \<noteq> last (cache_keys c)"
    have s: "sorted_wrt (\<lambda>a b. last_use ops b < last_use ops a) (cache_keys c)"
      using ord by (simp add: cache_keys_def sorted_wrt_map)
    show "last_use ops (last (cache_keys c)) < last_use ops k'"
      by (rule sorted_last_least [OF s kne k'])
  qed
  show ?thesis
    using ent keys setb least kne len pos by (simp add: cache_size_def)
qed

lemma take_cons_take: "take n (x # take n xs) = take n (x # xs)"
  by (cases n) simp_all

lemma stores_entries:
  "distinct (map fst kvs) \<Longrightarrow>
   entries (run_ops (cache_new n) (map (\<lambda>(k, v). Store k v) kvs)) = take n (rev kvs)"
proof (induction kvs rule: rev_induct)
  case Nil
  show ?case by (simp add: run_ops_def cache_new_def)
next
  case (snoc kv kvs)
  obtain k v where kv: "kv = (k, v)" by (cases kv)
  let ?c = "run_ops (cache_new n) (map (\<lambda>(k, v). Store k v) kvs)"
  have ih: "entries ?c = take n (rev kvs)" using snoc by simp
  have cap: "capacity ?c = n" by (simp add: run_ops_capacity cache_new_def)
  have "\<forall>e \<in> set kvs. fst e \<noteq> k" using snoc.prems kv by auto
  then have "\<forall>e \<in> set (take n (rev kvs)). fst e \<noteq> k"
    by (metis in_set_takeD set_rev)
  then have nf: "filter (\<lambda>e. fst e \<noteq> k) (take n (rev kvs)) = take n (rev kvs)"
    by (simp add: filter_id_conv)
  have "run_ops (cache_new n) (map (\<lambda>(k, v). Store k v) (kvs @ [kv])) = cache_set k v ?c"
    by (simp add: run_ops_def kv)
  then show ?case
    by (simp add: cache_set_def ih cap nf take_cons_take kv)
qed

lemma take_rev_tl: "length xs = Suc n \<Longrightarrow> take n (rev xs) = rev (tl xs)"
  by (cases xs) (simp_all add: take_rev)

text \<open>
  C7: for the bounded local store of capacity \<open>n\<close>, after any sequence of lookups,
  stores and removals the number of entries is at most \<open>n\<close>; storing a key that is not
  present into a full store leaves \<open>n\<close> entries, the new key among them, and drops
  exactly the key whose last lookup or store is the oldest; in particular storing
  \<open>n + 1\<close> distinct keys into the empty store leaves the last \<open>n\<close> of them and drops
  the first one stored.
\<close>

theorem bounded_store_eviction:
  fixes ops :: "('k, 'v) cache_op list" and kvs :: "('k \<times> 'v) list"
  shows "cache_size (run_ops (cache_new n) ops) \<le> n \<and>
     (0 < n \<and> cache_size (run_ops (cache_new n) ops) = n \<and>
      k \<notin> set (cache_keys (run_ops (cache_new n) ops)) \<longrightarrow>
        cache_size (cache_set k v (run_ops (cache_new n) ops)) = n \<and>
        set (cache_keys (cache_set k v (run_ops (cache_new n) ops))) =
          insert k (set (cache_keys (run_ops (cache_new n) ops)) -
                    {last (cache_keys (run_ops (cache_new n) ops))}) \<and>
        last (cache_keys (run_ops (cache_new n) ops)) \<in> set (cache_keys (run_ops (cache_new n) ops)) \<and>
        (\<forall>k' \<in> set (cache_keys (run_ops (cache_new n) ops)).
            k' \<noteq> last (cache_keys (run_ops (cache_new n) ops)) \<longrightarrow>
            last_use ops (last (cache_keys (run_ops (cache_new n) ops))) < last_use ops k')) \<and>
     (distinct (map fst kvs) \<and> length kvs = Suc n \<longrightarrow>
        cache_size (run_ops (cache_new n) (map (\<lambda>(k, v). Store k v) kvs)) = n \<and>
        entries (run_ops (cache_new n) (map (\<lambda>(k, v). Store k v) kvs)) = rev (tl kvs) \<and>
        fst (hd kvs) \<notin> set (cache_keys (run_ops (cache_new n) (map (\<lambda>(k, v). Store k v) kvs))))"
proof (intro conjI impI)
  show "cache_size (run_ops (cache_new n) ops) \<le> n" by (rule size_bound)
next
  assume h: "0 < n \<and> cache_size (run_ops (cache_new n) ops) = n \<and>
      k \<notin> set (cache_keys (run_ops (cache_new n) ops))"
  note e = eviction [OF refl, of n ops k v]
  show "cache_size (cache_set k v (run_ops (cache_new n) ops)) = n" using e h by blast
  show "set (cache_keys (cache_set k v (run_ops (cache_new n) ops))) =
          insert k (set (cache_keys (run_ops (cache_new n) ops)) -
                    {last (cache_keys (run_ops (cache_new n) ops))})" using e h by blast
  show "last (cache_keys (run_ops (cache_new n) ops)) \<in> set (cache_keys (run_ops (cache_new n) ops))"
    using e h by blast
  show "\<forall>k' \<in> set (cache_keys (run_ops (cache_new n) ops)).
            k' \<noteq> last (cache_keys (run_ops (cache_new n) ops)) \<longrightarrow>
            last_use ops (last (cache_keys (run_ops (cache_new n) ops))) < last_use ops k'"
    using e h by blast
next
  assume h: "distinct (map fst kvs) \<and> length kvs = Suc n"
  then have ent: "entries (run_ops (cache_new n) (map (\<lambda>(k, v). Store k v) kvs)) = rev (tl kvs)"
    using stores_entries [of kvs n] take_rev_tl [of kvs n] by simp
  show "entries (run_ops (cache_new n) (map (\<lambda>(k, v). Store k v) kvs)) = rev (tl kvs)" by (rule ent)
  show "cache_size (run_ops (cache_new n) (map (\<lambda>(k, v). Store k v) kvs)) = n"
    using ent h by (simp add: cache_size_def)
  show "fst (hd kvs) \<notin> set (cache_keys (run_ops (cache_new n) (map (\<lambda>(k, v). Store k v) kvs)))"
    using ent h by (cases kvs) (auto simp: cache_keys_def map_tl)
qed

theorem bounded_store_eviction_witness:
  "0 < (2::nat) \<and>
   cache_size (run_ops (cache_new 2) example_ops) = 2 \<and>
   ''c'' \<notin> set (cache_keys (run_ops (cache_new 2) example_ops)) \<and>
   cache_keys (run_ops (cache_new 2) example_ops) = [''a'', ''b''] \<and>
   cache_size (cache_set ''c'' 3 (run_ops (cache_new 2) example_ops)) = 2 \<and>
   set (cache_keys (cache_set ''c'' 3 (run_ops (cache_new 2) example_ops))) = {''c'', ''a''} \<and>
   last_use example_ops ''b'' < last_use example_ops ''a'' \<and>
   distinct (map fst [(''a'', 1::nat), (''b'', 2), (''c'', 3)]) \<and>
   length [(''a'', 1::nat), (''b'', 2), (''c'', 3)] = Suc 2 \<and>
   entries (run_ops (cache_new 2)
      (map (\<lambda>(k, v). Store k v) [(''a'', 1::nat), (''b'', 2), (''c'', 3)])) =
     [(''c'', 3), (''b'', 2)]"
proof -
  let ?c = "run_ops (cache_new 2) example_ops"
  let ?kvs = "[(''a'', 1::nat), (''b'', 2), (''c'', 3)]"
  have ks: "cache_keys ?c = [''a'', ''b'']"
    by (simp add: run_ops_def example_ops_def cache_new_def cache_set_def cache_get_def
        cache_keys_def)
  have sz: "cache_size ?c = 2"
    by (simp add: run_ops_def example_ops_def cache_new_def cache_set_def cache_get_def
        cache_size_def)
  have new: "''c'' \<notin> set (cache_keys ?c)" by (simp add: ks)
  have d: "distinct (map fst ?kvs)" "length ?kvs = Suc 2" by simp_all
  note t = bounded_store_eviction [of 2 example_ops "''c''" 3 ?kvs]
  have 1: "cache_size (cache_set ''c'' 3 ?c) = 2" using t sz new by simp
  have 2: "set (cache_keys (cache_set ''c'' 3 ?c)) = {''c'', ''a''}"
    using t sz new by (auto simp: ks)
  have "last_use example_ops (last (cache_keys ?c)) < last_use example_ops ''a''"
    using t sz new by (simp add: ks)
  then have 3: "last_use example_ops ''b'' < last_use example_ops ''a''" by (simp add: ks)
  have 4: "entries (run_ops (cache_new 2) (map (\<lambda>(k, v). Store k v) ?kvs)) = [(''c'', 3), (''b'', 2)]"
    using t d by simp
  show ?thesis using sz new ks 1 2 3 4 by simp
qed

section \<open>The middlewares step by step\<close>

lemma cached_response_eta:
  "\<lparr>statusCode = statusCode x, body = body x, headers = headers x\<rparr> = (x :: cached_response)"
  by simp

lemma generateCacheKey_cong:
  "req_method r2 = req_method r1 \<Longrightarrow> req_path r2 = req_path r1 \<Longrightarrow>
   generateCacheKey r2 t = generateCacheKey r1 t"
  by (simp add: generateCacheKey_def)

lemma check_no_token:
  "\<not> truthy (req_get req ''Idempotency-Key'') \<Longrightarrow> checkInLRUCacheMw req res st = (CallsNext, res, st)"
  by (auto simp: checkInLRUCacheMw_def truthy_def split: option.splits)

lemma check_miss:
  assumes "req_get req ''Idempotency-Key'' = Some t" "t \<noteq> []"
    and "cache_peek (cache st) (generateCacheKey req t) = None"
  shows "checkInLRUCacheMw req res st =
     (CallsNext, res, st\<lparr>calls := calls st @
        [KeyGenerated (generateCacheKey req t), CacheGet (generateCacheKey req t)]\<rparr>)"
  using assms by (simp add: checkInLRUCacheMw_def cache_get_miss Let_def)

lemma check_hit:
  assumes "req_get req ''Idempotency-Key'' = Some t" "t \<noteq> []"
    and "cache_peek (cache st) (generateCacheKey req t) = Some r"
  shows "\<exists>c'. cache_peek c' = cache_peek (cache st) \<and> capacity c' = capacity (cache st) \<and>
     checkInLRUCacheMw req res st =
     (Responds, replay req r res (st\<lparr>cache := c', calls := calls st @
        [KeyGenerated (generateCacheKey req t), CacheGet (generateCacheKey req t)]\<rparr>))"
proof -
  from cache_get_hit [OF assms(3)] obtain c' where
    c': "cache_get (generateCacheKey req t) (cache st) = (Some r, c')"
        "cache_peek c' = cache_peek (cache st)" "capacity c' = capacity (cache st)" by blast
  show ?thesis
    using assms(1,2) c' by (intro exI [of _ c']) (simp add: checkInLRUCacheMw_def Let_def split: prod.splits)
qed

lemma lower_names:
  "lower ''Content-Type'' = ''content-type''"
  "lower ''Content-Length'' = ''content-length''"
  "lower ''ETag'' = ''etag''"
  "lower ''Transfer-Encoding'' = ''transfer-encoding''"
  "lower ''Last-Modified'' = ''last-modified''"
  "lower ''X-Cache'' = ''x-cache''"
  by (simp_all add: lower_def lower_char_def)

lemma res_set_frame:
  "res_statusCode (res_set n v r) = res_statusCode r"
  "res_body (res_set n v r) = res_body r"
  "res_headers (res_set n v r) = res_headers r"
  "sentBody (res_set n v r) = sentBody r"
  "endListeners (res_set n v r) = endListeners r"
  "res_app (res_set n v r) = res_app r"
  by (simp_all add: res_set_def Let_def)

lemma res_set_other: "k \<noteq> lower n \<Longrightarrow> headerFields (res_set n v r) k = headerFields r k"
  by (simp add: res_set_def Let_def)

lemma res_set_same:
  "lower n \<noteq> ''content-type'' \<Longrightarrow> headerFields (res_set n v r) (lower n) = Some v"
  by (simp add: res_set_def Let_def)

lemma res_remove_frame:
  "res_statusCode (res_remove n r) = res_statusCode r"
  "res_body (res_remove n r) = res_body r"
  "res_headers (res_remove n r) = res_headers r"
  "sentBody (res_remove n r) = sentBody r"
  "endListeners (res_remove n r) = endListeners r"
  "res_app (res_remove n r) = res_app r"
  by (simp_all add: res_remove_def)

lemma res_remove_other: "k \<noteq> lower n \<Longrightarrow> headerFields (res_remove n r) k = headerFields r k"
  by (simp add: res_remove_def)

lemma send_content_type_frame:
  "res_statusCode (send_content_type r) = res_statusCode r"
  "res_body (send_content_type r) = res_body r"
  "res_headers (send_content_type r) = res_headers r"
  "sentBody (send_content_type r) = sentBody r"
  "endListeners (send_content_type r) = endListeners r"
  "res_app (send_content_type r) = res_app r"
  by (simp_all add: send_content_type_def Let_def res_set_frame split: option.splits)

lemma send_content_type_other:
  "k \<noteq> ''content-type'' \<Longrightarrow> headerFields (send_content_type r) k = headerFields r k"
  by (simp add: send_content_type_def Let_def res_set_other lower_names split: option.splits)

lemma send_length_etag_frame:
  "res_statusCode (send_length_etag b r) = res_statusCode r"
  "res_body (send_length_etag b r) = res_body r"
  "res_headers (send_length_etag b r) = res_headers r"
  "sentBody (send_length_etag b r) = sentBody r"
  "endListeners (send_length_etag b r) = endListeners r"
  "res_app (send_length_etag b r) = res_app r"
  by (simp_all add: send_length_etag_def Let_def res_set_frame split: option.splits)

lemma send_length_etag_other:
  "k \<noteq> ''content-length'' \<Longrightarrow> k \<noteq> ''etag'' \<Longrightarrow>
   headerFields (send_length_etag b r) k = headerFields r k"
  by (simp add: send_length_etag_def Let_def res_set_other lower_names split: option.splits)

lemma send_fields_frame:
  "res_body (send_fields req chunk r) = res_body r"
  "res_headers (send_fields req chunk r) = res_headers r"
  "endListeners (send_fields req chunk r) = endListeners r"
  "res_app (send_fields req chunk r) = res_app r"
  by (simp_all add: send_fields_def Let_def res_set_frame res_remove_frame
      send_content_type_frame send_length_etag_frame split: option.splits prod.splits)

lemma send_fields_other:
  assumes "k \<notin> express_managed"
  shows "headerFields (send_fields req chunk r) k = headerFields r k"
proof -
  have k: "k \<noteq> ''content-type''" "k \<noteq> ''content-length''" "k \<noteq> ''etag''"
    "k \<noteq> ''transfer-encoding''"
    using assms by (auto simp: express_managed_def)
  show ?thesis
    by (simp add: send_fields_def Let_def res_set_other res_remove_other lower_names k
        send_content_type_other send_length_etag_other split: option.splits prod.splits)
qed

lemma send_fields_status:
  "res_statusCode (send_fields req chunk r) = res_statusCode r \<or>
   res_statusCode (send_fields req chunk r) = 304"
  by (simp add: send_fields_def Let_def res_set_frame res_remove_frame
      send_content_type_frame send_length_etag_frame split: option.splits prod.splits)

lemma send_fields_status_method:
  assumes "req_method req \<noteq> ''GET''" "req_method req \<noteq> ''HEAD''"
  shows "res_statusCode (send_fields req chunk r) = res_statusCode r"
  using assms
  by (simp add: send_fields_def Let_def req_fresh_def res_set_frame res_remove_frame
      send_content_type_frame send_length_etag_frame split: option.splits prod.splits)


lemma send_fields_sent: "sentBody (send_fields req chunk r) \<noteq> None"
  by (simp add: send_fields_def Let_def split: prod.splits)

lemma set_each_frame:
  "res_statusCode (foldl (\<lambda>r (name, v). res_set name v r) r hs) = res_statusCode r"
  "res_body (foldl (\<lambda>r (name, v). res_set name v r) r hs) = res_body r"
  "res_headers (foldl (\<lambda>r (name, v). res_set name v r) r hs) = res_headers r"
  "sentBody (foldl (\<lambda>r (name, v). res_set name v r) r hs) = sentBody r"
  "endListeners (foldl (\<lambda>r (name, v). res_set name v r) r hs) = endListeners r"
  "res_app (foldl (\<lambda>r (name, v). res_set name v r) r hs) = res_app r"
  by (induction hs rule: rev_induct) (simp_all add: res_set_frame split: prod.splits)


lemma res_set_all_frame:
  "res_statusCode (res_set_all obj r) = res_statusCode r"
  "res_body (res_set_all obj r) = res_body r"
  "res_headers (res_set_all obj r) = res_headers r"
  "sentBody (res_set_all obj r) = sentBody r"
  "endListeners (res_set_all obj r) = endListeners r"
  "res_app (res_set_all obj r) = res_app r"
  by (simp_all add: res_set_all_def set_each_frame split: option.splits)


lemma replay_response:
  "fst (replay req x res st) =
     (send_fields req (body x)
        (res_set ''X-Cache'' ''HIT'' (res_set_all (headers x) (res_status (statusCode x) res))))
     \<lparr>endListeners := []\<rparr>"
  by (simp add: replay_def res_send_def emit_end_def)

lemma replay_listeners: "endListeners (fst (replay req x res st)) = []"
  by (simp add: replay_response)

lemma replay_state: "endListeners res = [] \<Longrightarrow> snd (replay req x res st) = st"
  by (simp add: replay_def res_send_def emit_end_def send_fields_frame res_set_frame
      res_set_all_frame res_status_def)

lemma replay_hit: "headerFields (fst (replay req x res st)) ''x-cache'' = Some ''HIT''"
proof -
  have "''x-cache'' \<notin> express_managed" by (simp add: express_managed_def)
  then show ?thesis
    using res_set_same [of "''X-Cache''" "''HIT''"]
    by (simp add: replay_response send_fields_other lower_names)
qed

lemma replay_status:
  "res_statusCode (fst (replay req x res st)) = statusCode x \<or>
   res_statusCode (fst (replay req x res st)) = 304"
  using send_fields_status [of req "body x"
      "res_set ''X-Cache'' ''HIT'' (res_set_all (headers x) (res_status (statusCode x) res))"]
  by (simp add: replay_response res_set_frame res_set_all_frame res_status_def)

lemma replay_status_method:
  assumes "req_method req \<noteq> ''GET''" "req_method req \<noteq> ''HEAD''"
  shows "res_statusCode (fst (replay req x res st)) = statusCode x"
  by (simp add: replay_response send_fields_status_method [OF assms] res_set_frame
      res_set_all_frame res_status_def)



lemma emit_end_no_listeners: "endListeners res = [] \<Longrightarrow> emit_end res st = (res, st)"
  by (simp add: emit_end_def)

lemma run_listener_capacity:
  "capacity (cache (run_listener l res st)) = capacity (cache st)"
  by (cases l) (auto simp: Let_def cache_set_capacity split: option.splits prod.splits sum.splits)

lemma listeners_capacity:
  "capacity (cache (foldl (\<lambda>s l. run_listener l res s) st ls)) = capacity (cache st)"
  by (induction ls arbitrary: st) (simp_all add: run_listener_capacity)

lemma run_listener_lru_stores:
  assumes "req_get req ''Idempotency-Key'' = Some t" "t \<noteq> []" "0 < capacity (cache st)"
  shows "cache_peek (cache (run_listener (StoreInLRUCache req) res st)) (generateCacheKey req t) =
     Some \<lparr>statusCode = res_statusCode res, body = res_body res, headers = res_headers res\<rparr>"
  using assms by (simp add: Let_def cache_set_peek)

lemma run_listener_lru_calls:
  assumes "req_get req ''Idempotency-Key'' = Some t" "t \<noteq> []"
  shows "calls (run_listener (StoreInLRUCache req) res st) =
     calls st @ [KeyGenerated (generateCacheKey req t), CacheSet (generateCacheKey req t)
        \<lparr>statusCode = res_statusCode res, body = res_body res, headers = res_headers res\<rparr>]"
  using assms by (simp add: Let_def)

lemma run_listener_no_token:
  "\<not> truthy (req_get req ''Idempotency-Key'') \<Longrightarrow> run_listener (StoreInLRUCache req) res st = st"
  "\<not> truthy (req_get req ''Idempotency-Key'') \<Longrightarrow> run_listener (StoreInRedis cl req) res st = st"
  by (auto simp: truthy_def split: option.splits)

lemma completes_stores:
  assumes "req_get req ''Idempotency-Key'' = Some t" "t \<noteq> []" "0 < capacity (cache st)"
    and "endListeners res = ls @ [StoreInLRUCache req]"
  shows "cache_peek (cache (snd (downstream_completes x res st))) (generateCacheKey req t) = Some x"
  using assms
  by (simp add: downstream_completes_def emit_end_def run_listener_lru_stores listeners_capacity
        del: run_listener.simps)

lemma run_listener_reads:
  assumes "res_statusCode r1 = res_statusCode r2" "res_body r1 = res_body r2"
    "res_headers r1 = res_headers r2"
  shows "run_listener l r1 st = run_listener l r2 st"
  by (cases l) (simp_all add: assms Let_def split: option.splits)

lemma emit_end_reads:
  assumes "res_statusCode r1 = res_statusCode r2" "res_body r1 = res_body r2"
    "res_headers r1 = res_headers r2" "endListeners r1 = endListeners r2"
  shows "snd (emit_end r1 st) = snd (emit_end r2 st)"
proof -
  have "(\<lambda>s l. run_listener l r1 s) = (\<lambda>s l. run_listener l r2 s)"
    by (intro ext) (rule run_listener_reads [OF assms(1-3)])
  then show ?thesis
    by (simp add: emit_end_def assms(4))
qed

lemma handler_responds_completes:
  "snd (handler_responds req code hs b res st) =
   snd (downstream_completes
          \<lparr>statusCode = res_statusCode (send_fields req (Some b)
                           (res_set_all (Some hs) (res_status code res))),
           body = res_body res, headers = res_headers res\<rparr> res st)"
  unfolding handler_responds_def res_send_def downstream_completes_def
  by (rule emit_end_reads)
    (simp_all add: send_fields_frame res_set_all_frame res_status_def)

lemma lru_gate_chain:
  "lru_gate options chain \<Longrightarrow> chain = [expressEnd, checkInLRUCacheMw, storeInLRUCacheMw]"
  by (auto simp: lru_gate_def idempotency_def idempotency_part_000_def checkMw_def storeMw_def)

lemma lru_chain_no_token:
  "\<not> truthy (req_get req ''Idempotency-Key'') \<Longrightarrow>
   run_chain [expressEnd, checkInLRUCacheMw, storeInLRUCacheMw] req res st =
     (CallsNext, res\<lparr>endListeners := endListeners res @ [StoreInLRUCache req]\<rparr>, st)"
  by (simp add: expressEnd_def check_no_token storeInLRUCacheMw_def)

lemma lru_chain_miss:
  assumes "req_get req ''Idempotency-Key'' = Some t" "t \<noteq> []"
    and "cache_peek (cache st) (generateCacheKey req t) = None"
  shows "run_chain [expressEnd, checkInLRUCacheMw, storeInLRUCacheMw] req res st =
     (CallsNext, res\<lparr>endListeners := endListeners res @ [StoreInLRUCache req]\<rparr>,
      st\<lparr>calls := calls st @
        [KeyGenerated (generateCacheKey req t), CacheGet (generateCacheKey req t)]\<rparr>)"
  by (simp add: expressEnd_def check_miss [OF assms] storeInLRUCacheMw_def)

lemma lru_chain_hit:
  assumes "req_get req ''Idempotency-Key'' = Some t" "t \<noteq> []"
    and "cache_peek (cache st) (generateCacheKey req t) = Some r"
  shows "\<exists>c'. cache_peek c' = cache_peek (cache st) \<and> capacity c' = capacity (cache st) \<and>
     run_chain [expressEnd, checkInLRUCacheMw, storeInLRUCacheMw] req res st =
     (Responds, replay req r res (st\<lparr>cache := c', calls := calls st @
        [KeyGenerated (generateCacheKey req t), CacheGet (generateCacheKey req t)]\<rparr>))"
proof -
  from check_hit [OF assms, of res] obtain c' where
    c': "cache_peek c' = cache_peek (cache st)" "capacity c' = capacity (cache st)"
     "checkInLRUCacheMw req res st =
     (Responds, replay req r res (st\<lparr>cache := c', calls := calls st @
        [KeyGenerated (generateCacheKey req t), CacheGet (generateCacheKey req t)]\<rparr>))"
    by blast
  show ?thesis
    by (intro exI [of _ c']) (simp add: c' expressEnd_def split: prod.splits)
qed

lemma lru_chain_cases:
  assumes tok: "req_get req ''Idempotency-Key'' = Some t" "t \<noteq> []"
    and fwd: "run_chain [expressEnd, checkInLRUCacheMw, storeInLRUCacheMw] req res st = (CallsNext, res', st1)"
  shows "cache_peek (cache st) (generateCacheKey req t) = None \<and>
           res' = res\<lparr>endListeners := endListeners res @ [StoreInLRUCache req]\<rparr> \<and>
           st1 = st\<lparr>calls := calls st @
        [KeyGenerated (generateCacheKey req t), CacheGet (generateCacheKey req t)]\<rparr>"
proof (cases "cache_peek (cache st) (generateCacheKey req t)")
  case None
  with fwd lru_chain_miss [OF tok None, of res] show ?thesis by simp
next
  case (Some r)
  with fwd lru_chain_hit [OF tok Some, of res] show ?thesis by auto
qed


lemma downstream_mutates_listeners:
  "endListeners res = ls @ [StoreInLRUCache req] \<Longrightarrow>
   endListeners (downstream_mutates req' res) =
     map (listener_with_request req') ls @ [StoreInLRUCache req']"
  by (simp add: downstream_mutates_def)

subsection \<open>The Redis middlewares and the chains that are built\<close>

lemma check_redis_no_token:
  "\<not> truthy (req_get req ''Idempotency-Key'') \<Longrightarrow> checkInRedisMw cl req res st = (CallsNext, res, st)"
  by (auto simp: checkInRedisMw_def truthy_def split: option.splits)

lemma check_redis_miss:
  assumes "req_get req ''Idempotency-Key'' = Some t" "t \<noteq> []"
    and "getAsync cl (generateCacheKey req t) (backend st) = (Inr None, b)"
  shows "checkInRedisMw cl req res st =
     (CallsNext, res, st\<lparr>backend := b, calls := calls st @
        [KeyGenerated (generateCacheKey req t), RedisGet (generateCacheKey req t)]\<rparr>)"
  using assms by (simp add: checkInRedisMw_def Let_def)

lemma check_redis_fail:
  assumes "req_get req ''Idempotency-Key'' = Some t" "t \<noteq> []"
    and "getAsync cl (generateCacheKey req t) (backend st) = (Inl e, b)"
  shows "checkInRedisMw cl req res st =
     (Rejects e, res, st\<lparr>backend := b, calls := calls st @
        [KeyGenerated (generateCacheKey req t), RedisGet (generateCacheKey req t)]\<rparr>)"
  using assms by (simp add: checkInRedisMw_def Let_def)

lemma check_redis_hit:
  assumes "req_get req ''Idempotency-Key'' = Some t" "t \<noteq> []"
    and "getAsync cl (generateCacheKey req t) (backend st) = (Inr (Some r), b)"
  shows "checkInRedisMw cl req res st =
     (Responds, replay req r res (st\<lparr>backend := b, calls := calls st @
        [KeyGenerated (generateCacheKey req t), RedisGet (generateCacheKey req t)]\<rparr>))"
  using assms by (simp add: checkInRedisMw_def Let_def split: prod.splits)

lemma redis_chain_no_token:
  "\<not> truthy (req_get req ''Idempotency-Key'') \<Longrightarrow>
   run_chain [expressEnd, checkInRedisMw cl, storeInRedisMw cl] req res st =
     (CallsNext, res\<lparr>endListeners := endListeners res @ [StoreInRedis cl req]\<rparr>, st)"
  by (simp add: expressEnd_def check_redis_no_token storeInRedisMw_def)

lemma redis_chain_miss:
  assumes "req_get req ''Idempotency-Key'' = Some t" "t \<noteq> []"
    and "getAsync cl (generateCacheKey req t) (backend st) = (Inr None, b)"
  shows "run_chain [expressEnd, checkInRedisMw cl, storeInRedisMw cl] req res st =
     (CallsNext, res\<lparr>endListeners := endListeners res @ [StoreInRedis cl req]\<rparr>,
      st\<lparr>backend := b, calls := calls st @
        [KeyGenerated (generateCacheKey req t), RedisGet (generateCacheKey req t)]\<rparr>)"
  by (simp add: expressEnd_def check_redis_miss [OF assms] storeInRedisMw_def)

lemma redis_chain_fail:
  assumes "req_get req ''Idempotency-Key'' = Some t" "t \<noteq> []"
    and "getAsync cl (generateCacheKey req t) (backend st) = (Inl e, b)"
  shows "run_chain [expressEnd, checkInRedisMw cl, storeInRedisMw cl] req res st =
     (Rejects e, res, st\<lparr>backend := b, calls := calls st @
        [KeyGenerated (generateCacheKey req t), RedisGet (generateCacheKey req t)]\<rparr>)"
  by (simp add: expressEnd_def check_redis_fail [OF assms])

lemma redis_chain_cases:
  assumes tok: "req_get req ''Idempotency-Key'' = Some t" "t \<noteq> []"
    and fwd: "run_chain [expressEnd, checkInRedisMw cl, storeInRedisMw cl] req res st = (CallsNext, res', st1)"
  shows "\<exists>b. getAsync cl (generateCacheKey req t) (backend st) = (Inr None, b) \<and>
           res' = res\<lparr>endListeners := endListeners res @ [StoreInRedis cl req]\<rparr> \<and>
           st1 = st\<lparr>backend := b, calls := calls st @
             [KeyGenerated (generateCacheKey req t), RedisGet (generateCacheKey req t)]\<rparr>"
proof -
  obtain r b where g: "getAsync cl (generateCacheKey req t) (backend st) = (r, b)"
    by (cases "getAsync cl (generateCacheKey req t) (backend st)")
  show ?thesis
  proof (cases r)
    case (Inl e)
    with fwd check_redis_fail [OF tok, of cl st e b res] g show ?thesis
      by (simp add: expressEnd_def)
  next
    case (Inr v)
    show ?thesis
    proof (cases v)
      case None
      with fwd check_redis_miss [OF tok, of cl st b res] g Inr show ?thesis
        by (auto simp: expressEnd_def storeInRedisMw_def)
    next
      case (Some sr)
      with fwd check_redis_hit [OF tok, of cl st sr b res] g Inr show ?thesis
        by (simp add: expressEnd_def split: prod.splits)
    qed
  qed
qed

lemma run_listener_redis_calls:
  assumes "req_get req ''Idempotency-Key'' = Some t" "t \<noteq> []"
  shows "calls (run_listener (StoreInRedis cl req) res st) =
     calls st @ [KeyGenerated (generateCacheKey req t), RedisSet (generateCacheKey req t)
        \<lparr>statusCode = res_statusCode res, body = res_body res, headers = res_headers res\<rparr>]"
  using assms by (simp add: Let_def split: prod.splits sum.splits)

lemma run_listener_redis_fail:
  assumes "req_get req ''Idempotency-Key'' = Some t" "t \<noteq> []"
    and "setAsync cl (generateCacheKey req t)
           \<lparr>statusCode = res_statusCode res, body = res_body res, headers = res_headers res\<rparr>
           (backend st) = (Inl e, b)"
  shows "run_listener (StoreInRedis cl req) res st =
     st\<lparr>backend := b,
        calls := calls st @ [KeyGenerated (generateCacheKey req t),
           RedisSet (generateCacheKey req t)
             \<lparr>statusCode = res_statusCode res, body = res_body res, headers = res_headers res\<rparr>],
        unhandled := unhandled st @ [e]\<rparr>"
  using assms by (simp add: Let_def)

lemma run_listener_redis_backend:
  assumes "req_get req ''Idempotency-Key'' = Some t" "t \<noteq> []"
  shows "backend (run_listener (StoreInRedis cl req) res st) =
     snd (setAsync cl (generateCacheKey req t)
            \<lparr>statusCode = res_statusCode res, body = res_body res, headers = res_headers res\<rparr>
            (backend st))"
    and "cache (run_listener (StoreInRedis cl req) res st) = cache st"
  using assms by (simp_all add: Let_def split: prod.splits sum.splits)

lemma idempotency_redis:
  assumes "cacheEngine options = Some ''redis''" "redis options = Some ro"
  shows "idempotency options =
     Inr [expressEnd, checkInRedisMw (client ro), storeInRedisMw (client ro)]"
  using assms by (simp add: idempotency_def)

lemma idempotency_chains:
  assumes "idempotency options = Inr chain \<or> idempotency_part_000 options = Inr chain"
  shows "chain = [expressEnd, checkInLRUCacheMw, storeInLRUCacheMw] \<or>
         (\<exists>cl. chain = [expressEnd, checkInRedisMw cl, storeInRedisMw cl])"
  using assms
  by (auto simp: idempotency_def idempotency_part_000_def checkMw_def storeMw_def
      split: if_splits option.splits)

text \<open>The constructor of the single-backend file reads no option and never fails.\<close>

lemma idempotency_part_000_never_fails: "idempotency_part_000 options \<noteq> Inl e"
  by (simp add: idempotency_part_000_def)

subsection \<open>The sample inputs\<close>

lemma example_token: "req_get example_request ''Idempotency-Key'' = Some ''abc''"
  by (simp add: example_request_def req_get_def)

lemma example_ne: "''abc'' \<noteq> []"
  by simp

lemma example_miss:
  "cache_peek (cache (initial_state n b)) k = None"
  by (simp add: initial_state_def cache_new_def cache_peek_def)

lemma example_error_token_cap:
  "0 < capacity (cache (initial_state 1 b))"
  by (simp add: initial_state_def cache_new_def)

lemma example_cached_hit:
  "cache_peek (cache example_cached_state) (generateCacheKey example_request ''abc'') =
     Some example_final"
  by (simp add: example_cached_state_def cache_set_peek cache_new_def)

lemma fresh_listeners: "endListeners (fresh_response :: 'c response) = []"
  by (simp add: fresh_response_def)

lemma no_token_example: "\<not> truthy (req_get example_request_no_token ''Idempotency-Key'')"
  by (simp add: example_request_no_token_def req_get_def truthy_def)

lemma lru_gate_lru_options:
  "lru_gate lru_options [expressEnd, checkInLRUCacheMw, storeInLRUCacheMw]"
  by (simp add: lru_gate_def lru_options_def idempotency_def)

lemma idempotency_lru_options:
  "idempotency lru_options = Inr [expressEnd, checkInLRUCacheMw, storeInLRUCacheMw]"
  by (simp add: lru_options_def idempotency_def)

lemma example_forwarded:
  "run_chain [expressEnd, checkInLRUCacheMw, storeInLRUCacheMw] example_request fresh_response
     (initial_state n b) =
   (CallsNext, fresh_response\<lparr>endListeners := [StoreInLRUCache example_request]\<rparr>,
    (initial_state n b)\<lparr>calls := [KeyGenerated (generateCacheKey example_request ''abc''),
                                   CacheGet (generateCacheKey example_request ''abc'')]\<rparr>)"
  by (subst lru_chain_miss [OF example_token example_ne example_miss])
     (simp add: fresh_listeners initial_state_def)

lemma readonly_get:
  "getAsync readonly_client k b = (Inr None, b)"
  by (simp add: readonly_client_def)












section \<open>Replay\<close>






text \<open>
  C10: when the cache holds a response for the key of the request, the chain stops at the
  check middleware: the response is answered, no listener is registered on it, the only
  calls are one key generation and one lookup, and the mapping the cache holds is the one
  it held before; a later completion signal on that response changes nothing.
\<close>

theorem hit_leaves_cache:
  assumes gate: "lru_gate options chain"
    and tok: "req_get req ''Idempotency-Key'' = Some t" "t \<noteq> []"
    and hit: "cache_peek (cache st) (generateCacheKey req t) = Some r"
    and fresh: "endListeners res = []"
  shows "\<exists>res' st'.
      run_chain chain req res st = (Responds, res', st') \<and>
      endListeners res' = [] \<and>
      cache_peek (cache st') = cache_peek (cache st) \<and>
      calls st' = calls st @
        [KeyGenerated (generateCacheKey req t), CacheGet (generateCacheKey req t)] \<and>
      (\<forall>x. snd (downstream_completes x res' st') = st')"
proof -
  let ?k = "generateCacheKey req t"
  have chain: "chain = [expressEnd, checkInLRUCacheMw, storeInLRUCacheMw]"
    using gate by (rule lru_gate_chain)
  from lru_chain_hit [OF tok hit, of res] obtain c' where
    c': "cache_peek c' = cache_peek (cache st)"
    and run: "run_chain chain req res st =
      (Responds, replay req r res (st\<lparr>cache := c', calls := calls st @ [KeyGenerated ?k, CacheGet ?k]\<rparr>))"
      (is "_ = (_, replay req r res ?s)")
    unfolding chain by blast
  have rs: "snd (replay req r res ?s) = ?s" by (rule replay_state [OF fresh])
  have rl: "endListeners (fst (replay req r res ?s)) = []" by (rule replay_listeners)
  have "\<forall>x. snd (downstream_completes x (fst (replay req r res ?s)) ?s) = ?s"
    by (simp add: downstream_completes_def emit_end_def rl)
  then show ?thesis
    using run rs rl c'
    by (intro exI [of _ "fst (replay req r res ?s)"] exI [of _ ?s]) (simp add: prod_eq_iff)
qed

theorem hit_leaves_cache_witness:
  "lru_gate (lru_options :: unit options) [expressEnd, checkInLRUCacheMw, storeInLRUCacheMw] \<and>
   req_get example_request ''Idempotency-Key'' = Some ''abc'' \<and>
   cache_peek (cache example_cached_state) (generateCacheKey example_request ''abc'') =
     Some example_final \<and>
   endListeners (fresh_response :: unit response) = [] \<and>
   (\<exists>res' st'.
      run_chain [expressEnd, checkInLRUCacheMw, storeInLRUCacheMw] example_request fresh_response
        example_cached_state = (Responds, res', st') \<and>
      endListeners res' = [] \<and>
      cache_peek (cache st') = cache_peek (cache example_cached_state) \<and>
      calls st' = [KeyGenerated (generateCacheKey example_request ''abc''),
                   CacheGet (generateCacheKey example_request ''abc'')] \<and>
      snd (downstream_completes example_final res' st') = st')"
proof -
  let ?C = "[expressEnd, checkInLRUCacheMw, storeInLRUCacheMw] :: unit middleware list"
  have g: "lru_gate (lru_options :: unit options) ?C" by (rule lru_gate_lru_options)
  have c0: "calls example_cached_state = []" by (simp add: example_cached_state_def)
  from hit_leaves_cache [OF g example_token example_ne example_cached_hit fresh_listeners]
  have "\<exists>res' st'.
      run_chain ?C example_request fresh_response example_cached_state = (Responds, res', st') \<and>
      endListeners res' = [] \<and>
      cache_peek (cache st') = cache_peek (cache example_cached_state) \<and>
      calls st' = [KeyGenerated (generateCacheKey example_request ''abc''),
                   CacheGet (generateCacheKey example_request ''abc'')] \<and>
      snd (downstream_completes example_final res' st') = st'"
    unfolding c0 append_Nil by metis
  then show ?thesis
    using g example_token example_cached_hit fresh_listeners by blast
qed

section \<open>Passthrough, capture and the key of the store\<close>

text \<open>
  C4: a request with no idempotency key (the header absent, or empty) passes every gate
  that \<^verbatim>\<open>idempotency\<close> builds with \<^verbatim>\<open>next\<close> called and the shared state unchanged: no
  key is generated, the cache and the Redis client are not called. The one listener that
  the store middleware registers changes nothing when it runs, so nothing is captured when
  the response completes either.
\<close>

theorem no_token_passthrough:
  assumes chain: "idempotency options = Inr chain \<or> idempotency_part_000 options = Inr chain"
    and no: "\<not> truthy (req_get req ''Idempotency-Key'')"
  shows "\<exists>l. run_chain chain req res st =
             (CallsNext, res\<lparr>endListeners := endListeners res @ [l]\<rparr>, st) \<and>
           (\<forall>r s. run_listener l r s = s) \<and>
           (endListeners res = [] \<longrightarrow>
              (\<forall>x. snd (downstream_completes x (res\<lparr>endListeners := endListeners res @ [l]\<rparr>) st) = st))"
proof -
  from idempotency_chains [OF chain] show ?thesis
  proof (elim disjE exE)
    assume c: "chain = [expressEnd, checkInLRUCacheMw, storeInLRUCacheMw]"
    have l: "\<forall>r s. run_listener (StoreInLRUCache req) r (s :: 'a state) = s"
      using no by (simp add: run_listener_no_token del: run_listener.simps)
    show ?thesis
      by (rule exI [of _ "StoreInLRUCache req"])
        (simp add: c lru_chain_no_token [OF no] l downstream_completes_def emit_end_def
          del: run_listener.simps run_chain.simps)
  next
    fix cl assume c: "chain = [expressEnd, checkInRedisMw cl, storeInRedisMw cl]"
    have l: "\<forall>r s. run_listener (StoreInRedis cl req) r s = s"
      using no by (simp add: run_listener_no_token del: run_listener.simps)
    show ?thesis
      by (rule exI [of _ "StoreInRedis cl req"])
        (simp add: c redis_chain_no_token [OF no] l downstream_completes_def emit_end_def
          del: run_listener.simps run_chain.simps)
  qed
qed

theorem no_token_passthrough_witness:
  "(idempotency (lru_options :: unit options) = Inr [expressEnd, checkInLRUCacheMw, storeInLRUCacheMw] \<or>
    idempotency_part_000 (lru_options :: unit options) = Inr [expressEnd, checkInLRUCacheMw, storeInLRUCacheMw]) \<and>
   \<not> truthy (req_get example_request_no_token ''Idempotency-Key'') \<and>
   endListeners (fresh_response :: unit response) = [] \<and>
   run_chain [expressEnd, checkInLRUCacheMw, storeInLRUCacheMw] example_request_no_token
      fresh_response (initial_state 1 ()) =
     (CallsNext, fresh_response\<lparr>endListeners := [StoreInLRUCache example_request_no_token]\<rparr>,
      initial_state 1 ()) \<and>
   snd (downstream_completes example_final
          (fresh_response\<lparr>endListeners := [StoreInLRUCache example_request_no_token]\<rparr>)
          (initial_state 1 ())) = (initial_state 1 () :: unit state)"
proof -
  let ?C = "[expressEnd, checkInLRUCacheMw, storeInLRUCacheMw] :: unit middleware list"
  have g: "idempotency (lru_options :: unit options) = Inr ?C \<or>
           idempotency_part_000 (lru_options :: unit options) = Inr ?C"
    by (simp add: idempotency_lru_options)
  have fr: "endListeners (fresh_response :: unit response) = []"
    by (simp add: fresh_response_def)
  from no_token_passthrough [OF g no_token_example, of fresh_response "initial_state 1 ()"]
  obtain l where
    run: "run_chain ?C example_request_no_token fresh_response (initial_state 1 ()) =
            (CallsNext, fresh_response\<lparr>endListeners := endListeners fresh_response @ [l]\<rparr>,
             initial_state 1 ())"
    and compl: "endListeners (fresh_response :: unit response) = [] \<longrightarrow>
       (\<forall>x. snd (downstream_completes x
          (fresh_response\<lparr>endListeners := endListeners fresh_response @ [l]\<rparr>)
          (initial_state 1 ())) = initial_state 1 ())"
    by blast
  have "run_chain ?C example_request_no_token fresh_response (initial_state 1 ()) =
     (CallsNext, fresh_response\<lparr>endListeners := [StoreInLRUCache example_request_no_token]\<rparr>,
      initial_state 1 ())"
    by (simp add: lru_chain_no_token [OF no_token_example] fr del: run_chain.simps)
  with run have l: "fresh_response\<lparr>endListeners := endListeners fresh_response @ [l]\<rparr> =
      (fresh_response\<lparr>endListeners := [StoreInLRUCache example_request_no_token]\<rparr> :: unit response)"
    by simp
  show ?thesis
    using g no_token_example fr run compl unfolding l by simp
qed




text \<open>
  C8: for a request with an idempotency key that misses, the gate forwards it and stores
  nothing before the response completes: the cache is as it was, and the same request
  arriving again is forwarded again. When the response completes, the store is called
  once, under the key of the request; the listener is then gone, so a further \<^verbatim>\<open>'end'\<close>
  event or completion changes nothing.
\<close>

theorem capture_at_most_once:
  assumes gate: "lru_gate options chain"
    and tok: "req_get req ''Idempotency-Key'' = Some t" "t \<noteq> []"
    and miss: "cache_peek (cache st) (generateCacheKey req t) = None"
    and fresh: "endListeners res = []"
  shows "\<exists>res' st1.
      run_chain chain req res st = (CallsNext, res', st1) \<and>
      cache st1 = cache st \<and>
      calls st1 = calls st @
        [KeyGenerated (generateCacheKey req t), CacheGet (generateCacheKey req t)] \<and>
      fst (run_chain chain req res2 st1) = CallsNext \<and>
      (\<forall>x. \<exists>res'' st2.
         downstream_completes x res' st1 = (res'', st2) \<and>
         calls st2 = calls st1 @
           [KeyGenerated (generateCacheKey req t), CacheSet (generateCacheKey req t) x] \<and>
         emit_end res'' st2 = (res'', st2) \<and>
         (\<forall>y. snd (downstream_completes y res'' st2) = st2))"
proof -
  let ?k = "generateCacheKey req t"
  let ?res' = "res\<lparr>endListeners := endListeners res @ [StoreInLRUCache req]\<rparr>"
  let ?st1 = "st\<lparr>calls := calls st @ [KeyGenerated ?k, CacheGet ?k]\<rparr>"
  have chain: "chain = [expressEnd, checkInLRUCacheMw, storeInLRUCacheMw]"
    using gate by (rule lru_gate_chain)
  have run: "run_chain chain req res st = (CallsNext, ?res', ?st1)"
    unfolding chain by (rule lru_chain_miss [OF tok miss])
  have miss1: "cache_peek (cache ?st1) ?k = None" using miss by simp
  have retry: "fst (run_chain chain req res2 ?st1) = CallsNext"
    unfolding chain by (subst lru_chain_miss [OF tok miss1]) simp
  have once: "\<exists>res'' st2.
         downstream_completes x ?res' ?st1 = (res'', st2) \<and>
         calls st2 = calls ?st1 @ [KeyGenerated ?k, CacheSet ?k x] \<and>
         emit_end res'' st2 = (res'', st2) \<and>
         (\<forall>y. snd (downstream_completes y res'' st2) = st2)" for x
  proof -
    obtain res'' st2 where d: "downstream_completes x ?res' ?st1 = (res'', st2)"
      by (cases "downstream_completes x ?res' ?st1")
    have l: "endListeners res'' = []"
      using d by (auto simp: downstream_completes_def emit_end_def)
    have "st2 = snd (downstream_completes x ?res' ?st1)" using d by simp
    then have c: "calls st2 = calls ?st1 @ [KeyGenerated ?k, CacheSet ?k x]"
      by (simp add: downstream_completes_def emit_end_def fresh run_listener_lru_calls [OF tok]
          del: run_listener.simps)
    have e: "emit_end res'' st2 = (res'', st2)" by (rule emit_end_no_listeners [OF l])
    have "\<forall>y. snd (downstream_completes y res'' st2) = st2"
      by (simp add: downstream_completes_def emit_end_def l)
    with d c e show ?thesis by blast
  qed
  show ?thesis
    using run retry once by (intro exI [of _ ?res'] exI [of _ ?st1]) simp
qed

theorem capture_at_most_once_witness:
  "lru_gate (lru_options :: unit options) [expressEnd, checkInLRUCacheMw, storeInLRUCacheMw] \<and>
   req_get example_request ''Idempotency-Key'' = Some ''abc'' \<and>
   cache_peek (cache (initial_state 1 ())) (generateCacheKey example_request ''abc'') = None \<and>
   endListeners (fresh_response :: unit response) = [] \<and>
   (\<exists>res' st1.
      run_chain [expressEnd, checkInLRUCacheMw, storeInLRUCacheMw] example_request fresh_response
        (initial_state 1 ()) = (CallsNext, res', st1) \<and>
      cache st1 = cache (initial_state 1 ()) \<and>
      fst (run_chain [expressEnd, checkInLRUCacheMw, storeInLRUCacheMw] example_request
             fresh_response st1) = CallsNext \<and>
      (\<exists>res'' st2.
         downstream_completes example_final res' st1 = (res'', st2) \<and>
         calls st2 = calls st1 @
           [KeyGenerated (generateCacheKey example_request ''abc''),
            CacheSet (generateCacheKey example_request ''abc'') example_final] \<and>
         emit_end res'' st2 = (res'', st2)))"
proof -
  let ?C = "[expressEnd, checkInLRUCacheMw, storeInLRUCacheMw] :: unit middleware list"
  have g: "lru_gate (lru_options :: unit options) ?C" by (rule lru_gate_lru_options)
  have m: "cache_peek (cache (initial_state 1 () :: unit state))
             (generateCacheKey example_request ''abc'') = None"
    by (rule example_miss)
  from capture_at_most_once [OF g example_token example_ne m fresh_listeners, of fresh_response]
  have "\<exists>res' st1.
      run_chain ?C example_request fresh_response (initial_state 1 ()) = (CallsNext, res', st1) \<and>
      cache st1 = cache (initial_state 1 ()) \<and>
      fst (run_chain ?C example_request fresh_response st1) = CallsNext \<and>
      (\<exists>res'' st2.
         downstream_completes example_final res' st1 = (res'', st2) \<and>
         calls st2 = calls st1 @
           [KeyGenerated (generateCacheKey example_request ''abc''),
            CacheSet (generateCacheKey example_request ''abc'') example_final] \<and>
         emit_end res'' st2 = (res'', st2))"
    by metis
  then show ?thesis
    using g example_token m fresh_listeners by blast
qed

section \<open>Construction\<close>

text \<open>
  C5: \<^verbatim>\<open>idempotency\<close> of index.js called with a \<^verbatim>\<open>cacheEngine\<close> that is neither
  \<^verbatim>\<open>'lru'\<close> nor \<^verbatim>\<open>'redis'\<close> throws a TypeError and builds no chain, so no request is
  ever processed by it.
\<close>

theorem unknown_engine_rejected:
  assumes "cacheEngine options \<noteq> Some ''lru''" and "cacheEngine options \<noteq> Some ''redis''"
  shows "(\<exists>msg. idempotency options = Inl (TypeError msg)) \<and>
         (\<forall>chain. idempotency options \<noteq> Inr chain)"
  using assms by (simp add: idempotency_def)

theorem unknown_engine_rejected_witness:
  "cacheEngine (unknown_options :: unit options) \<noteq> Some ''lru'' \<and>
   cacheEngine (unknown_options :: unit options) \<noteq> Some ''redis'' \<and>
   (\<exists>msg. idempotency (unknown_options :: unit options) = Inl (TypeError msg)) \<and>
   (\<forall>chain. idempotency (unknown_options :: unit options) \<noteq> Inr chain)"
proof -
  have 1: "cacheEngine (unknown_options :: unit options) \<noteq> Some ''lru''"
    and 2: "cacheEngine (unknown_options :: unit options) \<noteq> Some ''redis''"
    by (simp_all add: unknown_options_def)
  show ?thesis using 1 2 unknown_engine_rejected [OF 1 2] by blast
qed

section \<open>Requests that race, and a backend that fails\<close>

text \<open>
  C2, as the code has it: the gate writes nothing on a MISS, so when two requests carry the
  same cache key and the second reaches the gate before the first has completed, both are
  forwarded and the cache is as it was (there is no in-flight marker and no conflict
  outcome); the second is answered as a HIT, without calling \<^verbatim>\<open>next\<close>, only when it
  reaches the gate after the first has completed. With the Redis backend both are
  forwarded as well whenever the lookup of the key finds no entry and leaves the service
  as it was.
\<close>

theorem concurrent_duplicates_both_forwarded:
  assumes gate: "lru_gate options chain"
    and tok1: "req_get req1 ''Idempotency-Key'' = Some t1" "t1 \<noteq> []"
    and tok2: "req_get req2 ''Idempotency-Key'' = Some t2" "t2 \<noteq> []"
    and same: "generateCacheKey req2 t2 = generateCacheKey req1 t1"
    and miss: "cache_peek (cache st) (generateCacheKey req1 t1) = None"
  shows "(\<exists>res1' st1 res2' st2.
            run_chain chain req1 res1 st = (CallsNext, res1', st1) \<and> cache st1 = cache st \<and>
            run_chain chain req2 res2 st1 = (CallsNext, res2', st2) \<and> cache st2 = cache st \<and>
            (0 < capacity (cache st) \<longrightarrow>
               (\<forall>x. fst (run_chain chain req2 res2 (snd (downstream_completes x res1' st1))) =
                      Responds))) \<and>
         (\<forall>cl. getAsync cl (generateCacheKey req1 t1) (backend st) = (Inr None, backend st) \<longrightarrow>
            (\<exists>res1' st1 res2' st2.
               run_chain [expressEnd, checkInRedisMw cl, storeInRedisMw cl] req1 res1 st =
                 (CallsNext, res1', st1) \<and> backend st1 = backend st \<and>
               run_chain [expressEnd, checkInRedisMw cl, storeInRedisMw cl] req2 res2 st1 =
                 (CallsNext, res2', st2) \<and> backend st2 = backend st))"
proof (intro conjI allI impI)
  let ?k = "generateCacheKey req1 t1"
  let ?res1' = "res1\<lparr>endListeners := endListeners res1 @ [StoreInLRUCache req1]\<rparr>"
  let ?st1 = "st\<lparr>calls := calls st @ [KeyGenerated ?k, CacheGet ?k]\<rparr>"
  let ?res2' = "res2\<lparr>endListeners := endListeners res2 @ [StoreInLRUCache req2]\<rparr>"
  let ?st2 = "?st1\<lparr>calls := calls ?st1 @ [KeyGenerated ?k, CacheGet ?k]\<rparr>"
  have chain: "chain = [expressEnd, checkInLRUCacheMw, storeInLRUCacheMw]"
    using gate by (rule lru_gate_chain)
  have run1: "run_chain chain req1 res1 st = (CallsNext, ?res1', ?st1)"
    unfolding chain by (rule lru_chain_miss [OF tok1 miss])
  have miss1: "cache_peek (cache ?st1) (generateCacheKey req2 t2) = None"
    using miss same by simp
  have run2: "run_chain chain req2 res2 ?st1 = (CallsNext, ?res2', ?st2)"
    unfolding chain using lru_chain_miss [OF tok2 miss1, of res2] by (simp add: same)
  have later: "fst (run_chain chain req2 res2 (snd (downstream_completes x ?res1' ?st1))) = Responds"
    if cap: "0 < capacity (cache st)" for x
  proof -
    have "cache_peek (cache (snd (downstream_completes x ?res1' ?st1))) ?k = Some x"
      using completes_stores [OF tok1, of ?st1 ?res1' "endListeners res1" x] cap by simp
    then have stored: "cache_peek (cache (snd (downstream_completes x ?res1' ?st1)))
        (generateCacheKey req2 t2) = Some x"
      by (simp add: same)
    from lru_chain_hit [OF tok2 stored, of res2] show ?thesis
      unfolding chain by auto
  qed
  show "\<exists>res1' st1 res2' st2.
            run_chain chain req1 res1 st = (CallsNext, res1', st1) \<and> cache st1 = cache st \<and>
            run_chain chain req2 res2 st1 = (CallsNext, res2', st2) \<and> cache st2 = cache st \<and>
            (0 < capacity (cache st) \<longrightarrow>
               (\<forall>x. fst (run_chain chain req2 res2 (snd (downstream_completes x res1' st1))) =
                      Responds))"
    using run1 run2 later
    by (intro exI [of _ ?res1'] exI [of _ ?st1] exI [of _ ?res2'] exI [of _ ?st2]) simp
next
  fix cl
  let ?k = "generateCacheKey req1 t1"
  let ?res1' = "res1\<lparr>endListeners := endListeners res1 @ [StoreInRedis cl req1]\<rparr>"
  let ?st1 = "st\<lparr>backend := backend st, calls := calls st @ [KeyGenerated ?k, RedisGet ?k]\<rparr>"
  let ?res2' = "res2\<lparr>endListeners := endListeners res2 @ [StoreInRedis cl req2]\<rparr>"
  let ?st2 = "?st1\<lparr>backend := backend st, calls := calls ?st1 @ [KeyGenerated ?k, RedisGet ?k]\<rparr>"
  assume g: "getAsync cl ?k (backend st) = (Inr None, backend st)"
  have run1: "run_chain [expressEnd, checkInRedisMw cl, storeInRedisMw cl] req1 res1 st =
      (CallsNext, ?res1', ?st1)"
    by (rule redis_chain_miss [OF tok1 g])
  have g2: "getAsync cl (generateCacheKey req2 t2) (backend ?st1) = (Inr None, backend st)"
    using g same by simp
  have run2: "run_chain [expressEnd, checkInRedisMw cl, storeInRedisMw cl] req2 res2 ?st1 =
      (CallsNext, ?res2', ?st2)"
    using redis_chain_miss [OF tok2 g2, of res2] by (simp add: same)
  show "\<exists>res1' st1 res2' st2.
               run_chain [expressEnd, checkInRedisMw cl, storeInRedisMw cl] req1 res1 st =
                 (CallsNext, res1', st1) \<and> backend st1 = backend st \<and>
               run_chain [expressEnd, checkInRedisMw cl, storeInRedisMw cl] req2 res2 st1 =
                 (CallsNext, res2', st2) \<and> backend st2 = backend st"
    using run1 run2
    by (intro exI [of _ ?res1'] exI [of _ ?st1] exI [of _ ?res2'] exI [of _ ?st2]) simp
qed

theorem concurrent_duplicates_both_forwarded_witness:
  "lru_gate (lru_options :: unit options) [expressEnd, checkInLRUCacheMw, storeInLRUCacheMw] \<and>
   req_get example_request ''Idempotency-Key'' = Some ''abc'' \<and>
   cache_peek (cache (initial_state 1 ())) (generateCacheKey example_request ''abc'') = None \<and>
   0 < capacity (cache (initial_state 1 ())) \<and>
   getAsync readonly_client (generateCacheKey example_request ''abc'')
      (backend (initial_state 1 ())) = (Inr None, backend (initial_state 1 ())) \<and>
   (\<exists>res1' st1 res2' st2.
      run_chain [expressEnd, checkInLRUCacheMw, storeInLRUCacheMw] example_request fresh_response
        (initial_state 1 ()) = (CallsNext, res1', st1) \<and>
      run_chain [expressEnd, checkInLRUCacheMw, storeInLRUCacheMw] example_request fresh_response
        st1 = (CallsNext, res2', st2) \<and>
      fst (run_chain [expressEnd, checkInLRUCacheMw, storeInLRUCacheMw] example_request
             fresh_response (snd (downstream_completes example_final res1' st1))) = Responds) \<and>
   (\<exists>res1' st1 res2' st2.
      run_chain [expressEnd, checkInRedisMw readonly_client, storeInRedisMw readonly_client]
        example_request fresh_response (initial_state 1 ()) = (CallsNext, res1', st1) \<and>
      run_chain [expressEnd, checkInRedisMw readonly_client, storeInRedisMw readonly_client]
        example_request fresh_response st1 = (CallsNext, res2', st2))"
proof -
  let ?C = "[expressEnd, checkInLRUCacheMw, storeInLRUCacheMw] :: unit middleware list"
  let ?k = "generateCacheKey example_request ''abc''"
  have g: "lru_gate (lru_options :: unit options) ?C" by (rule lru_gate_lru_options)
  have m: "cache_peek (cache (initial_state 1 () :: unit state)) ?k = None"
    by (rule example_miss)
  have cap: "0 < capacity (cache (initial_state 1 () :: unit state))"
    by (rule example_error_token_cap)
  have rg: "getAsync readonly_client ?k (backend (initial_state 1 ())) =
      (Inr None, backend (initial_state 1 ()))"
    by (rule readonly_get)
  note t = concurrent_duplicates_both_forwarded [OF g example_token example_ne example_token
      example_ne refl m, of fresh_response fresh_response]
  from t cap have 1: "\<exists>res1' st1 res2' st2.
      run_chain ?C example_request fresh_response (initial_state 1 ()) = (CallsNext, res1', st1) \<and>
      run_chain ?C example_request fresh_response st1 = (CallsNext, res2', st2) \<and>
      fst (run_chain ?C example_request fresh_response
             (snd (downstream_completes example_final res1' st1))) = Responds"
    by metis
  from t rg have 2: "\<exists>res1' st1 res2' st2.
      run_chain [expressEnd, checkInRedisMw readonly_client, storeInRedisMw readonly_client]
        example_request fresh_response (initial_state 1 ()) = (CallsNext, res1', st1) \<and>
      run_chain [expressEnd, checkInRedisMw readonly_client, storeInRedisMw readonly_client]
        example_request fresh_response st1 = (CallsNext, res2', st2)"
    by metis
  show ?thesis
    using g example_token m cap rg 1 2 by blast
qed

text \<open>
  The claim as the spec states it (exactly one downstream invocation for two requests with
  the same key that race) fails: the same request twice, the second before the first has
  completed, is forwarded twice.
\<close>

theorem concurrent_duplicates_counterexample:
  "idempotency_part_000 (lru_options :: unit options) = Inr [expressEnd, checkMw, storeMw] \<and>
   fst (run_chain [expressEnd, checkMw, storeMw] example_request fresh_response
          (initial_state 1 ())) = CallsNext \<and>
   fst (run_chain [expressEnd, checkMw, storeMw] example_request fresh_response
          (snd (snd (run_chain [expressEnd, checkMw, storeMw] example_request fresh_response
             (initial_state 1 ()))))) = CallsNext"
proof -
  let ?k = "generateCacheKey example_request ''abc''"
  have c: "([expressEnd, checkMw, storeMw] :: unit middleware list) =
      [expressEnd, checkInLRUCacheMw, storeInLRUCacheMw]"
    by (simp add: checkMw_def storeMw_def)
  let ?s1 = "(initial_state 1 ())\<lparr>calls := [KeyGenerated ?k, CacheGet ?k]\<rparr> :: unit state"
  have m: "cache_peek (cache ?s1) ?k = None"
    by (simp add: example_miss)
  have i: "idempotency_part_000 (lru_options :: unit options) = Inr [expressEnd, checkMw, storeMw]"
    by (simp add: idempotency_part_000_def)
  have r1: "run_chain [expressEnd, checkMw, storeMw] example_request fresh_response
      (initial_state 1 ()) =
      (CallsNext, fresh_response\<lparr>endListeners := [StoreInLRUCache example_request]\<rparr>, ?s1)"
    unfolding c by (rule example_forwarded)
  have r2: "fst (run_chain [expressEnd, checkMw, storeMw] example_request fresh_response ?s1) =
      CallsNext"
    unfolding c by (subst lru_chain_miss [OF example_token example_ne m]) simp
  show ?thesis
    unfolding r1 using i r2 by simp
qed

text \<open>
  C3, as the code has it, for a request with an idempotency key and the Redis backend: when
  the lookup fails, the promise of the check middleware is rejected with the error of the
  backend; nothing is written to the response, and \<^verbatim>\<open>next\<close> is not called. When the
  lookup finds no entry and the store fails at completion, the request has been forwarded,
  the gate has set no header field and sent no body (no HIT), the local cache is untouched,
  and the failure is the rejection of the promise of the listener, which nothing handles.
\<close>

theorem backend_failure_behaviour:
  assumes eng: "cacheEngine options = Some ''redis''" and ro: "redis options = Some ro"
    and chain: "idempotency options = Inr chain"
    and tok: "req_get req ''Idempotency-Key'' = Some t" "t \<noteq> []"
  shows "(\<forall>e b. getAsync (client ro) (generateCacheKey req t) (backend st) = (Inl e, b) \<longrightarrow>
            run_chain chain req res st =
              (Rejects e, res,
               st\<lparr>backend := b, calls := calls st @
                 [KeyGenerated (generateCacheKey req t), RedisGet (generateCacheKey req t)]\<rparr>)) \<and>
         (\<forall>b e b'. getAsync (client ro) (generateCacheKey req t) (backend st) = (Inr None, b) \<and>
              setAsync (client ro) (generateCacheKey req t) x b = (Inl e, b') \<and>
              endListeners res = [] \<longrightarrow>
            (\<exists>res' st1 res'' st2.
               run_chain chain req res st = (CallsNext, res', st1) \<and>
               downstream_completes x res' st1 = (res'', st2) \<and>
               res_statusCode res'' = statusCode x \<and>
               headerFields res'' = headerFields res \<and>
               sentBody res'' = sentBody res \<and>
               unhandled st2 = unhandled st @ [e] \<and>
               backend st2 = b' \<and>
               cache st2 = cache st))"
proof (intro conjI allI impI)
  let ?k = "generateCacheKey req t"
  let ?C = "[expressEnd, checkInRedisMw (client ro), storeInRedisMw (client ro)]"
  have c: "chain = ?C" using idempotency_redis [OF eng ro] chain by simp
  {
    fix e b assume "getAsync (client ro) ?k (backend st) = (Inl e, b)"
    then show "run_chain chain req res st =
              (Rejects e, res, st\<lparr>backend := b, calls := calls st @ [KeyGenerated ?k, RedisGet ?k]\<rparr>)"
      unfolding c by (rule redis_chain_fail [OF tok])
  next
    fix b e b'
    assume h: "getAsync (client ro) ?k (backend st) = (Inr None, b) \<and>
              setAsync (client ro) ?k x b = (Inl e, b') \<and> endListeners res = []"
    let ?res' = "res\<lparr>endListeners := endListeners res @ [StoreInRedis (client ro) req]\<rparr>"
    let ?st1 = "st\<lparr>backend := b, calls := calls st @ [KeyGenerated ?k, RedisGet ?k]\<rparr>"
    let ?resx = "?res'\<lparr>res_statusCode := statusCode x, res_body := body x, res_headers := headers x\<rparr>"
    have run: "run_chain chain req res st = (CallsNext, ?res', ?st1)"
      unfolding c using h by (intro redis_chain_miss [OF tok]) simp
    have s: "setAsync (client ro) ?k
        \<lparr>statusCode = res_statusCode ?resx, body = res_body ?resx, headers = res_headers ?resx\<rparr>
        (backend ?st1) = (Inl e, b')"
      using h by (simp add: cached_response_eta)
    let ?st2 = "run_listener (StoreInRedis (client ro) req) ?resx ?st1"
    have d: "downstream_completes x ?res' ?st1 = (?resx\<lparr>endListeners := []\<rparr>, ?st2)"
      using h by (simp add: downstream_completes_def emit_end_def del: run_listener.simps)
    have f: "unhandled ?st2 = unhandled st @ [e]" "backend ?st2 = b'" "cache ?st2 = cache st"
      unfolding run_listener_redis_fail [OF tok s] by simp_all
    have r: "res_statusCode (?resx\<lparr>endListeners := []\<rparr>) = statusCode x"
      "headerFields (?resx\<lparr>endListeners := []\<rparr>) = headerFields res"
      "sentBody (?resx\<lparr>endListeners := []\<rparr>) = sentBody res"
      by simp_all
    show "\<exists>res' st1 res'' st2.
               run_chain chain req res st = (CallsNext, res', st1) \<and>
               downstream_completes x res' st1 = (res'', st2) \<and>
               res_statusCode res'' = statusCode x \<and>
               headerFields res'' = headerFields res \<and>
               sentBody res'' = sentBody res \<and>
               unhandled st2 = unhandled st @ [e] \<and>
               backend st2 = b' \<and>
               cache st2 = cache st"
      using run d f r by blast
  }
qed

theorem backend_failure_behaviour_witness:
  "cacheEngine (redis_options failing_client) = Some ''redis'' \<and>
   redis (redis_options failing_client) = Some \<lparr>client = failing_client\<rparr> \<and>
   idempotency (redis_options failing_client) =
     Inr [expressEnd, checkInRedisMw failing_client, storeInRedisMw failing_client] \<and>
   req_get example_request ''Idempotency-Key'' = Some ''abc'' \<and>
   getAsync failing_client (generateCacheKey example_request ''abc'')
     (backend (initial_state 1 ())) = (Inl (RedisError ''ECONNREFUSED''), ()) \<and>
   run_chain [expressEnd, checkInRedisMw failing_client, storeInRedisMw failing_client]
     example_request fresh_response (initial_state 1 ()) =
     (Rejects (RedisError ''ECONNREFUSED''), fresh_response,
      (initial_state 1 ())\<lparr>backend := (), calls := calls (initial_state 1 ()) @
         [KeyGenerated (generateCacheKey example_request ''abc''),
          RedisGet (generateCacheKey example_request ''abc'')]\<rparr>) \<and>
   idempotency (redis_options readonly_client) =
     Inr [expressEnd, checkInRedisMw readonly_client, storeInRedisMw readonly_client] \<and>
   getAsync readonly_client (generateCacheKey example_request ''abc'')
     (backend (initial_state 1 ())) = (Inr None, ()) \<and>
   setAsync readonly_client (generateCacheKey example_request ''abc'') example_final () =
     (Inl (RedisError ''READONLY''), ()) \<and>
   endListeners (fresh_response :: unit response) = [] \<and>
   (\<exists>res' st1 res'' st2.
      run_chain [expressEnd, checkInRedisMw readonly_client, storeInRedisMw readonly_client]
        example_request fresh_response (initial_state 1 ()) = (CallsNext, res', st1) \<and>
      downstream_completes example_final res' st1 = (res'', st2) \<and>
      res_statusCode res'' = 201 \<and>
      headerFields res'' = Map.empty \<and>
      sentBody res'' = None \<and>
      unhandled st2 = [RedisError ''READONLY''])"
proof -
  let ?k = "generateCacheKey example_request ''abc''"
  let ?F = "[expressEnd, checkInRedisMw failing_client, storeInRedisMw failing_client]"
  let ?R = "[expressEnd, checkInRedisMw readonly_client, storeInRedisMw readonly_client]"
  have e1: "cacheEngine (redis_options failing_client) = Some ''redis''"
    and r1: "redis (redis_options failing_client) = Some \<lparr>client = failing_client\<rparr>"
    and e2: "cacheEngine (redis_options readonly_client) = Some ''redis''"
    and r2: "redis (redis_options readonly_client) = Some \<lparr>client = readonly_client\<rparr>"
    by (simp_all add: redis_options_def)
  have i1: "idempotency (redis_options failing_client) = Inr ?F"
    and i2: "idempotency (redis_options readonly_client) = Inr ?R"
    by (simp_all add: redis_options_def idempotency_def)
  have g1: "getAsync failing_client ?k (backend (initial_state 1 ())) =
      (Inl (RedisError ''ECONNREFUSED''), ())"
    by (simp add: failing_client_def)
  have g2: "getAsync readonly_client ?k (backend (initial_state 1 ())) = (Inr None, ())"
    and s2: "setAsync readonly_client ?k example_final () = (Inl (RedisError ''READONLY''), ())"
    by (simp_all add: readonly_client_def)
  note t1 = backend_failure_behaviour [OF e1 r1 i1 example_token example_ne,
      of "initial_state 1 ()" fresh_response example_final]
  note t2 = backend_failure_behaviour [OF e2 r2 i2 example_token example_ne,
      of "initial_state 1 ()" fresh_response example_final]
  have a: "run_chain ?F example_request fresh_response (initial_state 1 ()) =
     (Rejects (RedisError ''ECONNREFUSED''), fresh_response,
      (initial_state 1 ())\<lparr>backend := (), calls := calls (initial_state 1 ()) @
         [KeyGenerated ?k, RedisGet ?k]\<rparr>)"
    using t1 g1 by simp
  have u0: "unhandled (initial_state 1 () :: unit state) = []"
    by (simp add: initial_state_def)
  have f0: "headerFields (fresh_response :: unit response) = Map.empty"
    "sentBody (fresh_response :: unit response) = None"
    by (simp_all add: fresh_response_def)
  have x0: "statusCode example_final = 201" by (simp add: example_final_def)
  from t2 g2 s2 fresh_listeners
  have b: "\<exists>res' st1 res'' st2.
      run_chain ?R example_request fresh_response (initial_state 1 ()) = (CallsNext, res', st1) \<and>
      downstream_completes example_final res' st1 = (res'', st2) \<and>
      res_statusCode res'' = 201 \<and>
      headerFields res'' = Map.empty \<and>
      sentBody res'' = None \<and>
      unhandled st2 = [RedisError ''READONLY'']"
    unfolding u0 f0 x0 append_Nil by (simp del: run_chain.simps, blast)
  show ?thesis
    using e1 r1 i1 example_token g1 a i2 g2 s2 fresh_listeners b by blast
qed

text \<open>
  The claim as the spec states it (a failing lookup degrades to forwarding) fails: with a
  client whose lookup rejects, the request is not forwarded.
\<close>

theorem backend_failure_counterexample:
  "idempotency (redis_options failing_client) =
     Inr [expressEnd, checkInRedisMw failing_client, storeInRedisMw failing_client] \<and>
   fst (run_chain [expressEnd, checkInRedisMw failing_client, storeInRedisMw failing_client]
          example_request fresh_response (initial_state 1 ())) =
     Rejects (RedisError ''ECONNREFUSED'')"
proof -
  have g: "getAsync failing_client (generateCacheKey example_request ''abc'')
      (backend (initial_state 1 ())) = (Inl (RedisError ''ECONNREFUSED''), ())"
    by (simp add: failing_client_def)
  have i: "idempotency (redis_options failing_client) =
     Inr [expressEnd, checkInRedisMw failing_client, storeInRedisMw failing_client]"
    by (simp add: redis_options_def idempotency_def)
  show ?thesis
    unfolding redis_chain_fail [OF example_token example_ne g] using i by simp
qed

end
